theory Spec2Isabelle
  imports Complex_Main "HOL-Library.AList" "HOL-Library.Multiset"
begin

section \<open>Numbers\<close>

text \<open>
  A TypeScript \<open>number\<close> is an IEEE 754 binary64 value. The finite ones are the reals
  \<open>m * 2 ^ k\<close> with \<open>\<bar>m\<bar> < 2 ^ 53\<close> and \<open>- 1074 \<le> k \<le> 971\<close>; besides them there are the two
  infinities and \<open>NaN\<close>. The two zeros are one value here: they are equal under \<open>===\<close>
  and \<open>>=\<close>, they print alike in JSON, and \<open>+\<close> and \<open>*\<close> cannot tell them apart except
  in the sign of a zero result.
\<close>

definition pow2 :: "int \<Rightarrow> real" where
  "pow2 k = 2 powr real_of_int k"

definition finite_doubles :: "real set" where
  "finite_doubles =
     {x. \<exists>m k. x = of_int m * pow2 k \<and> \<bar>m\<bar> < 2 ^ 53 \<and> - 1074 \<le> k \<and> k \<le> 971}"

typedef finite64 = finite_doubles
proof
  have "(0::real) = of_int 0 * pow2 0" by simp
  then show "0 \<in> finite_doubles" unfolding finite_doubles_def by fastforce
qed

datatype number = Finite finite64 | PosInfinity | NegInfinity | NaN

text \<open>
  Rounding to nearest, ties to even: the real \<open>x\<close> is brought to the grid of its binade
  (spacing \<open>2 ^ (e - 52)\<close> where \<open>2 ^ e \<le> \<bar>x\<bar> < 2 ^ (e + 1)\<close>, and \<open>e\<close> no less than
  \<open>- 1022\<close>, which gives the subnormals); a result of magnitude \<open>2 ^ 1024\<close> or more is
  an infinity. \<open>double\<close> is also how a decimal literal of JSON or of the source becomes a
  number.
\<close>

definition roundTiesToEven :: "real \<Rightarrow> int" where
  "roundTiesToEven y =
     (let f = \<lfloor>y\<rfloor>; d = y - of_int f
      in if d < 1 / 2 then f else if 1 / 2 < d then f + 1 else if even f then f else f + 1)"

definition ulp_exponent :: "real \<Rightarrow> int" where
  "ulp_exponent x = max \<lfloor>log 2 \<bar>x\<bar>\<rfloor> (- 1022) - 52"

definition round_binary64 :: "real \<Rightarrow> real" where
  "round_binary64 x =
     (if x = 0 then 0
      else of_int (roundTiesToEven (x / pow2 (ulp_exponent x))) * pow2 (ulp_exponent x))"

definition double :: "real \<Rightarrow> number" where
  "double x =
     (let y = round_binary64 x
      in if 2 ^ 1024 \<le> y then PosInfinity
         else if y \<le> - (2 ^ 1024) then NegInfinity
         else Finite (Abs_finite64 y))"

text \<open>The real value of a finite number.\<close>

fun valueOf :: "number \<Rightarrow> real option" where
  "valueOf (Finite a) = Some (Rep_finite64 a)"
| "valueOf _ = None"

text \<open>\<open>+\<close> and \<open>*\<close> of the source: the exact result, rounded; the special cases as IEEE 754 has them.\<close>

definition signed_infinity :: "bool \<Rightarrow> number" where
  "signed_infinity positive = (if positive then PosInfinity else NegInfinity)"

instantiation number :: "{zero, plus, times}"
begin

definition zero_number :: number where
  "zero_number = double 0"

fun plus_number :: "number \<Rightarrow> number \<Rightarrow> number" where
  "plus_number NaN _ = NaN"
| "plus_number _ NaN = NaN"
| "plus_number PosInfinity NegInfinity = NaN"
| "plus_number NegInfinity PosInfinity = NaN"
| "plus_number PosInfinity _ = PosInfinity"
| "plus_number _ PosInfinity = PosInfinity"
| "plus_number NegInfinity _ = NegInfinity"
| "plus_number _ NegInfinity = NegInfinity"
| "plus_number (Finite a) (Finite b) = double (Rep_finite64 a + Rep_finite64 b)"

fun times_number :: "number \<Rightarrow> number \<Rightarrow> number" where
  "times_number NaN _ = NaN"
| "times_number _ NaN = NaN"
| "times_number (Finite a) (Finite b) = double (Rep_finite64 a * Rep_finite64 b)"
| "times_number (Finite a) PosInfinity =
     (if Rep_finite64 a = 0 then NaN else signed_infinity (0 < Rep_finite64 a))"
| "times_number (Finite a) NegInfinity =
     (if Rep_finite64 a = 0 then NaN else signed_infinity (Rep_finite64 a < 0))"
| "times_number PosInfinity (Finite b) =
     (if Rep_finite64 b = 0 then NaN else signed_infinity (0 < Rep_finite64 b))"
| "times_number NegInfinity (Finite b) =
     (if Rep_finite64 b = 0 then NaN else signed_infinity (Rep_finite64 b < 0))"
| "times_number PosInfinity PosInfinity = PosInfinity"
| "times_number PosInfinity NegInfinity = NegInfinity"
| "times_number NegInfinity PosInfinity = NegInfinity"
| "times_number NegInfinity NegInfinity = PosInfinity"

instance ..

end

text \<open>\<open>x >= 0\<close> of the source (the schema's \<open>gte(0)\<close>), and the values that are not negative numbers.\<close>

fun ge0 :: "number \<Rightarrow> bool" where
  "ge0 (Finite a) \<longleftrightarrow> 0 \<le> Rep_finite64 a"
| "ge0 PosInfinity \<longleftrightarrow> True"
| "ge0 NegInfinity \<longleftrightarrow> False"
| "ge0 NaN \<longleftrightarrow> False"

definition nonneg_or_NaN :: "number \<Rightarrow> bool" where
  "nonneg_or_NaN x \<longleftrightarrow> x = NaN \<or> ge0 x"


section \<open>Data model\<close>

text \<open>
  The cookbook service stores ingredients and recipes in two JavaScript \<open>Map\<close>s keyed by
  name. A \<open>Map\<close> that is only looked up by key is a partial function; the \<open>Map\<close> built by
  the resolver is iterated, so it is an association list in insertion order.
\<close>

record requiredItem =
  name :: string
  quantity :: number

record recipe =
  recipe_name :: string
  requiredItems :: "requiredItem list"

record ingredient =
  ingredient_name :: string
  cookTime :: number

datatype CookbookEntry = Recipe recipe | Ingredient ingredient

record Cookbook =
  recipes :: "string \<rightharpoonup> recipe"
  ingredients :: "string \<rightharpoonup> ingredient"

text \<open>The value \<open>T | null\<close> of the source.\<close>

datatype 'a nullable = Null | Val 'a

type_synonym table = "(string \<times> number) list"

section \<open>The ingredient resolver\<close>

text \<open>
  \<open>map.set(entry, (map.get(entry) ?? 0) + quantity)\<close>: an existing key keeps its place in
  the iteration order and a new key goes to the end, which is what \<open>AList.update\<close> does.
\<close>

definition addToMapEntry :: "string \<Rightarrow> number \<Rightarrow> table \<Rightarrow> table" where
  "addToMapEntry entry q m =
     AList.update entry ((case map_of m entry of None \<Rightarrow> 0 | Some old \<Rightarrow> old) + q) m"

text \<open>
  The inner loop of \<open>getRecipeIngredients\<close> over the entries of the sub-recipe's table.
\<close>

definition addScaled :: "number \<Rightarrow> table \<Rightarrow> table \<Rightarrow> table" where
  "addScaled m inner acc = fold (\<lambda>(k, q). addToMapEntry k (q * m)) inner acc"

text \<open>
  \<open>getRecipeIngredients\<close> has no guard against cycles, so it need not return. The loop
  over \<open>recipe.requiredItems\<close> and the recursion into sub-recipes are one partial function
  \<open>resolveItems\<close> over the items still to process and the \<open>Map\<close> built so far; the value
  \<open>None\<close> is "does not return", \<open>Some Null\<close> is the \<open>null\<close> of the source.
\<close>

partial_function (option) resolveItems ::
  "Cookbook \<Rightarrow> requiredItem list \<Rightarrow> table \<Rightarrow> table nullable option" where
  "resolveItems cb items acc =
     (case items of
        [] \<Rightarrow> Some (Val acc)
      | it # rest \<Rightarrow>
          (case ingredients cb (name it) of
             Some ing \<Rightarrow> resolveItems cb rest (addToMapEntry (name it) (quantity it) acc)
           | None \<Rightarrow>
               (case recipes cb (name it) of
                  Some r \<Rightarrow>
                    Option.bind (resolveItems cb (requiredItems r) [])
                      (\<lambda>inner. case inner of
                          Null \<Rightarrow> Some Null
                        | Val t \<Rightarrow> resolveItems cb rest (addScaled (quantity it) t acc))
                | None \<Rightarrow> Some Null)))"

definition getRecipeIngredients :: "Cookbook \<Rightarrow> recipe \<Rightarrow> table nullable option" where
  "getRecipeIngredients cb r = resolveItems cb (requiredItems r) []"


section \<open>The summary builder\<close>

text \<open>
  The elements \<open>{name, quantity}\<close> of \<open>Summary.ingredients\<close> have the shape of a required
  item, so the same record is used for them.
\<close>

record Summary =
  summary_name :: string
  summary_cookTime :: number
  summary_ingredients :: "requiredItem list"

text \<open>
  The non-null assertion \<open>cookbook.ingredients.get(recipeIngredient)!\<close> is erased by the
  compiler: reading \<open>cookTime\<close> of \<open>undefined\<close> throws a \<open>TypeError\<close> at run time.
\<close>

datatype error = TypeError

fun summaryLoop :: "Cookbook \<Rightarrow> table \<Rightarrow> Summary \<Rightarrow> error + Summary" where
  "summaryLoop cb [] summary = Inr summary"
| "summaryLoop cb ((recipeIngredient, q) # rest) summary =
     (case ingredients cb recipeIngredient of
        None \<Rightarrow> Inl TypeError
      | Some ing \<Rightarrow>
          summaryLoop cb rest
            (summary\<lparr>summary_cookTime := summary_cookTime summary + cookTime ing * q,
                     summary_ingredients :=
                       summary_ingredients summary @ [\<lparr>name = recipeIngredient, quantity = q\<rparr>]\<rparr>))"

definition buildSummary :: "Cookbook \<Rightarrow> recipe \<Rightarrow> (error + Summary nullable) option" where
  "buildSummary cb r =
     (case getRecipeIngredients cb r of
        None \<Rightarrow> None
      | Some Null \<Rightarrow> Some (Inr Null)
      | Some (Val recipeIngredients) \<Rightarrow>
          (case summaryLoop cb recipeIngredients
                  \<lparr>summary_name = recipe_name r, summary_cookTime = 0, summary_ingredients = []\<rparr> of
             Inl e \<Rightarrow> Some (Inl e)
           | Inr summary \<Rightarrow> Some (Inr (Val summary))))"

section \<open>The HTTP handlers\<close>

text \<open>
  A handler either sends a status with a body, or an exception escapes from it. The
  result of the schema validation (\<open>safeParse\<close>) and the type of the query parameter are
  inputs of the model.
\<close>

datatype body = Text string | Json Summary

datatype response = Send nat body | Uncaught error

datatype 'a safeParse = ParseFailure string | ParseSuccess 'a

datatype query = QueryString string | QueryOther

fun entry_name :: "CookbookEntry \<Rightarrow> string" where
  "entry_name (Recipe r) = recipe_name r"
| "entry_name (Ingredient i) = ingredient_name i"

definition post_entry :: "Cookbook \<Rightarrow> CookbookEntry safeParse \<Rightarrow> response \<times> Cookbook" where
  "post_entry cb parsedInput =
     (case parsedInput of
        ParseFailure msg \<Rightarrow> (Send 400 (Text (''Improperly formatted payload: '' @ msg)), cb)
      | ParseSuccess cookbookEntry \<Rightarrow>
          if ingredients cb (entry_name cookbookEntry) \<noteq> None
             \<or> recipes cb (entry_name cookbookEntry) \<noteq> None
          then (Send 400 (Text ''An existing entry with the same name already exist.''), cb)
          else
            (case cookbookEntry of
               Recipe r \<Rightarrow>
                 (let requiredItemNames = map name (requiredItems r) in
                  if card (set requiredItemNames) \<noteq> length requiredItemNames
                  then (Send 400
                          (Text ''Required items cannot have multiple elements with the same name.''),
                        cb)
                  else (Send 200 (Text ''Cookbook Entry successfully added!''),
                        cb\<lparr>recipes := (recipes cb)(recipe_name r \<mapsto> r)\<rparr>))
             | Ingredient i \<Rightarrow>
                 (Send 200 (Text ''Cookbook Entry successfully added!''),
                  cb\<lparr>ingredients := (ingredients cb)(ingredient_name i \<mapsto> i)\<rparr>)))"

definition get_summary :: "Cookbook \<Rightarrow> query \<Rightarrow> response option" where
  "get_summary cb q =
     (case q of
        QueryOther \<Rightarrow> Some (Send 400 (Text ''Query parameter 'name' must be a string!''))
      | QueryString input \<Rightarrow>
          (case ingredients cb input of
             Some ing \<Rightarrow> Some (Send 400 (Text ''An existing ingredient has the provided name.''))
           | None \<Rightarrow>
               (case recipes cb input of
                  None \<Rightarrow> Some (Send 400 (Text ''No recipe with the provided name found.''))
                | Some r \<Rightarrow>
                    (case buildSummary cb r of
                       None \<Rightarrow> None
                     | Some (Inl e) \<Rightarrow> Some (Uncaught e)
                     | Some (Inr Null) \<Rightarrow>
                         Some (Send 400
                           (Text ''The recipe contains recipes or ingredients not in the cookbook.''))
                     | Some (Inr (Val summary)) \<Rightarrow> Some (Send 200 (Json summary))))))"



definition unresolvable_response :: response where
  "unresolvable_response =
     Send 400 (Text ''The recipe contains recipes or ingredients not in the cookbook.'')"

text \<open>The store at process start, and a run of \<open>POST /entry\<close> requests from a store.\<close>

definition empty_cookbook :: Cookbook where
  "empty_cookbook = \<lparr>recipes = Map.empty, ingredients = Map.empty\<rparr>"

fun post_entries :: "Cookbook \<Rightarrow> CookbookEntry safeParse list \<Rightarrow> response list \<times> Cookbook" where
  "post_entries cb [] = ([], cb)"
| "post_entries cb (req # reqs) =
     (let (res, cb') = post_entry cb req;
          (ress, cb'') = post_entries cb' reqs
      in (res # ress, cb''))"


section \<open>The display-name helper\<close>

text \<open>
  A JavaScript string is a sequence of UTF-16 code units, here natural numbers (a code
  unit is below 65536; the functions are defined on every natural number). The regular
  expressions have no \<open>u\<close> flag, so they match code unit by code unit. \<open>utf16\<close> gives the
  code units of an ASCII literal.
\<close>

type_synonym codeUnits = "nat list"

definition utf16 :: "string \<Rightarrow> codeUnits" where
  "utf16 s = map of_char s"

text \<open>
  The classes of the regular expressions: \<open>\s\<close> (tab, line feed, vertical tab, form feed,
  carriage return, space, U+00A0, U+1680, U+2000 to U+200A, U+2028, U+2029, U+202F,
  U+205F, U+3000, U+FEFF), \<open>[a-z]\<close>, \<open>[A-Z]\<close> and \<open>\d\<close>.
\<close>

definition isSpace :: "nat \<Rightarrow> bool" where
  "isSpace c \<longleftrightarrow>
     c \<in> {9, 10, 11, 12, 13, 32, 160, 5760, 8232, 8233, 8239, 8287, 12288, 65279}
     \<or> (8192 \<le> c \<and> c \<le> 8202)"

definition isLower :: "nat \<Rightarrow> bool" where
  "isLower c \<longleftrightarrow> 97 \<le> c \<and> c \<le> 122"

definition isUpper :: "nat \<Rightarrow> bool" where
  "isUpper c \<longleftrightarrow> 65 \<le> c \<and> c \<le> 90"

definition isAlpha :: "nat \<Rightarrow> bool" where
  "isAlpha c \<longleftrightarrow> isLower c \<or> isUpper c"

definition isDigit :: "nat \<Rightarrow> bool" where
  "isDigit c \<longleftrightarrow> 48 \<le> c \<and> c \<le> 57"

definition isAlnum :: "nat \<Rightarrow> bool" where
  "isAlnum c \<longleftrightarrow> isAlpha c \<or> isDigit c"

text \<open>
  \<open>toUpperCase\<close> and \<open>toLowerCase\<close> on the code units they are applied to here, which are
  ASCII letters and digits: a letter moves by 32, any other code unit stays.
\<close>

definition upperChar :: "nat \<Rightarrow> nat" where
  "upperChar c = (if isLower c then c - 32 else c)"

definition lowerChar :: "nat \<Rightarrow> nat" where
  "lowerChar c = (if isUpper c then c + 32 else c)"

definition toUpperCase :: "codeUnits \<Rightarrow> codeUnits" where
  "toUpperCase w = map upperChar w"

definition toLowerCase :: "codeUnits \<Rightarrow> codeUnits" where
  "toLowerCase w = map lowerChar w"

text \<open>\<open>replace(/[-_]/g, " ")\<close>: hyphen is 45, underscore 95, space 32.\<close>

definition replaceDashes :: "codeUnits \<Rightarrow> codeUnits" where
  "replaceDashes s = map (\<lambda>c. if c = 45 \<or> c = 95 then 32 else c) s"

text \<open>
  \<open>split(/\s+/)\<close>: the pieces between the maximal runs of white space, the empty pieces
  at the two ends included.
\<close>

function splitWhitespace :: "codeUnits \<Rightarrow> codeUnits list" where
  "splitWhitespace [] = [[]]"
| "splitWhitespace (c # cs) =
     (if isSpace c then [] # splitWhitespace (dropWhile isSpace cs)
      else (case splitWhitespace cs of
              [] \<Rightarrow> [[c]]
            | w # ws \<Rightarrow> (c # w) # ws))"
  by pat_completeness auto
termination
  by (relation "measure length") (auto simp: length_dropWhile_le less_Suc_eq_le)

fun join :: "codeUnits \<Rightarrow> codeUnits list \<Rightarrow> codeUnits" where
  "join sep [] = []"
| "join sep [w] = w"
| "join sep (w # ws) = w @ sep @ join sep ws"

definition titleCase :: "codeUnits \<Rightarrow> codeUnits" where
  "titleCase word = toUpperCase (take 1 word) @ toLowerCase (drop 1 word)"

text \<open>
  \<open>parse_handwriting\<close>, with the class of code units that the inner \<open>replace\<close> keeps as a
  parameter: the letters in the served file (\<open>/[^a-zA-Z]/g\<close>), the letters and digits in
  the template (\<open>/[^a-zA-Z\d]/g\<close>).
\<close>

definition parse_with :: "(nat \<Rightarrow> bool) \<Rightarrow> codeUnits \<Rightarrow> codeUnits nullable" where
  "parse_with keep recipeName =
     (let recipeWords =
        map titleCase
          (filter (\<lambda>word. length word > 0)
            (map (filter keep)
              (splitWhitespace (replaceDashes recipeName))))
      in if length recipeWords \<noteq> 0 then Val (join [32] recipeWords) else Null)"

definition parse_handwriting :: "codeUnits \<Rightarrow> codeUnits nullable" where
  "parse_handwriting = parse_with isAlpha"

definition parse_handwriting_template :: "codeUnits \<Rightarrow> codeUnits nullable" where
  "parse_handwriting_template = parse_with isAlnum"

text \<open>
  Reading a string word by word: a separator ends the current word, a kept code unit
  joins it, any other code unit is dropped.
\<close>

fun scan :: "(nat \<Rightarrow> bool) \<Rightarrow> (nat \<Rightarrow> bool) \<Rightarrow> codeUnits \<Rightarrow> codeUnits \<Rightarrow> codeUnits list" where
  "scan sep keep cur [] = (if cur = [] then [] else [rev cur])"
| "scan sep keep cur (c # cs) =
     (if sep c then (if cur = [] then scan sep keep [] cs else rev cur # scan sep keep [] cs)
      else if keep c then scan sep keep (c # cur) cs
      else scan sep keep cur cs)"

text \<open>The separators of the code: hyphen, underscore and white space.\<close>

definition isSeparator :: "nat \<Rightarrow> bool" where
  "isSeparator c \<longleftrightarrow> c = 45 \<or> c = 95 \<or> isSpace c"

text \<open>
  The helper as the specification words it: hyphens, underscores and every other
  character that is no letter or digit collapse into single spaces, the words are put in
  title case, and an input with no word gives \<open>null\<close>.
\<close>

definition parse_handwriting_spec :: "codeUnits \<Rightarrow> codeUnits nullable" where
  "parse_handwriting_spec s =
     (case scan (\<lambda>c. \<not> isAlnum c) isAlnum [] s of
        [] \<Rightarrow> Null
      | w # ws \<Rightarrow> Val (join [32] (map titleCase (w # ws))))"

section \<open>Notions used to state the properties\<close>

text \<open>
  The big-step reading of \<open>resolveItems\<close>: \<open>resolves cb items acc res\<close> holds when the loop
  over \<open>items\<close>, started with the table \<open>acc\<close>, returns \<open>res\<close>. It is shown below to
  coincide with \<open>resolveItems cb items acc = Some res\<close> and gives the induction principle
  for results of the resolver.
\<close>

inductive resolves :: "Cookbook \<Rightarrow> requiredItem list \<Rightarrow> table \<Rightarrow> table nullable \<Rightarrow> bool"
  for cb :: Cookbook where
  resolves_Nil: "resolves cb [] acc (Val acc)"
| resolves_ingredient:
    "ingredients cb (name it) = Some ing \<Longrightarrow>
     resolves cb rest (addToMapEntry (name it) (quantity it) acc) res \<Longrightarrow>
     resolves cb (it # rest) acc res"
| resolves_unknown:
    "ingredients cb (name it) = None \<Longrightarrow> recipes cb (name it) = None \<Longrightarrow>
     resolves cb (it # rest) acc Null"
| resolves_sub_null:
    "ingredients cb (name it) = None \<Longrightarrow> recipes cb (name it) = Some r \<Longrightarrow>
     resolves cb (requiredItems r) [] Null \<Longrightarrow>
     resolves cb (it # rest) acc Null"
| resolves_sub_val:
    "ingredients cb (name it) = None \<Longrightarrow> recipes cb (name it) = Some r \<Longrightarrow>
     resolves cb (requiredItems r) [] (Val t) \<Longrightarrow>
     resolves cb rest (addScaled (quantity it) t acc) res \<Longrightarrow>
     resolves cb (it # rest) acc res"

text \<open>The quantity a table holds for a name; a name that is no key counts as 0.\<close>

definition quantityOf :: "table \<Rightarrow> string \<Rightarrow> number" where
  "quantityOf t x = (case map_of t x of None \<Rightarrow> 0 | Some q \<Rightarrow> q)"

text \<open>
  What one required item does to the entry of the name \<open>x\<close> in the table being built:
  nothing (\<open>None\<close>) when the item neither is the ingredient \<open>x\<close> nor names a recipe whose
  resolved table has \<open>x\<close>; otherwise the number it adds to the entry, which is its own
  quantity, or the quantity of \<open>x\<close> in the sub-recipe's table times its quantity. The
  lookup order is the resolver's: the ingredient mapping first. \<open>accumulate\<close> is the
  effect on the entry: an entry that is absent starts from 0.
\<close>

definition contribution :: "Cookbook \<Rightarrow> string \<Rightarrow> requiredItem \<Rightarrow> number option" where
  "contribution cb x it =
     (case ingredients cb (name it) of
        Some ing \<Rightarrow> if name it = x then Some (quantity it) else None
      | None \<Rightarrow>
          (case recipes cb (name it) of
             None \<Rightarrow> None
           | Some r \<Rightarrow>
               (case getRecipeIngredients cb r of
                  Some (Val t) \<Rightarrow> map_option (\<lambda>q. q * quantity it) (map_of t x)
                | _ \<Rightarrow> None)))"

definition accumulate :: "number option \<Rightarrow> number option \<Rightarrow> number option" where
  "accumulate entry c =
     (case c of
        None \<Rightarrow> entry
      | Some q \<Rightarrow> Some ((case entry of None \<Rightarrow> 0 | Some old \<Rightarrow> old) + q))"

text \<open>
  The recipes the resolver descends into from a list of items, and the names in the
  transitive closure of the required items of a recipe.
\<close>

definition sub_recipes :: "Cookbook \<Rightarrow> recipe \<Rightarrow> recipe set" where
  "sub_recipes cb r =
     {r'. \<exists>it \<in> set (requiredItems r).
            ingredients cb (name it) = None \<and> recipes cb (name it) = Some r'}"

inductive reaches :: "Cookbook \<Rightarrow> recipe \<Rightarrow> string \<Rightarrow> bool" for cb :: Cookbook where
  reaches_item: "it \<in> set (requiredItems r) \<Longrightarrow> reaches cb r (name it)"
| reaches_sub: "r' \<in> sub_recipes cb r \<Longrightarrow> reaches cb r' n \<Longrightarrow> reaches cb r n"

text \<open>
  The required-item tree of a recipe is finite: every chain of sub-recipes from it ends.
  In a store with finitely many recipes this is the absence of a cycle among the
  recipes below it (\<open>acyclic_store_finite_tree\<close>).
\<close>

inductive finite_tree :: "Cookbook \<Rightarrow> recipe \<Rightarrow> bool" for cb :: Cookbook where
  finite_tree_node: "(\<And>r'. r' \<in> sub_recipes cb r \<Longrightarrow> finite_tree cb r') \<Longrightarrow> finite_tree cb r"

text \<open>
  The graph on recipe names: \<open>(n', n)\<close> when the recipe stored under \<open>n\<close> has a required
  item named \<open>n'\<close> that the resolver treats as a recipe.
\<close>

definition requires :: "Cookbook \<Rightarrow> (string \<times> string) set" where
  "requires cb =
     {(n', n). \<exists>r it. recipes cb n = Some r \<and> it \<in> set (requiredItems r) \<and> name it = n'
                \<and> ingredients cb n' = None \<and> recipes cb n' \<noteq> None}"

text \<open>The schema's bounds (\<open>gte(0)\<close>) on every stored quantity and cook time.\<close>

definition store_nonneg :: "Cookbook \<Rightarrow> bool" where
  "store_nonneg cb \<longleftrightarrow>
     (\<forall>n r. recipes cb n = Some r \<longrightarrow> (\<forall>it \<in> set (requiredItems r). ge0 (quantity it)))
     \<and> (\<forall>n i. ingredients cb n = Some i \<longrightarrow> ge0 (cookTime i))"

text \<open>The names a store knows, as an ingredient or as a recipe.\<close>

definition names_of :: "Cookbook \<Rightarrow> string set" where
  "names_of cb = dom (ingredients cb) \<union> dom (recipes cb)"

text \<open>The names of the entries that a run of registrations accepted (status 200).\<close>

fun accepted_names :: "CookbookEntry safeParse list \<Rightarrow> response list \<Rightarrow> string list" where
  "accepted_names (ParseSuccess e # reqs) (Send status b # ress) =
     (if status = 200 then entry_name e # accepted_names reqs ress
      else accepted_names reqs ress)"
| "accepted_names (req # reqs) (res # ress) = accepted_names reqs ress"
| "accepted_names _ _ = []"

section \<open>Scenarios\<close>

definition egg :: ingredient where
  "egg = \<lparr>ingredient_name = ''egg'', cookTime = double 5\<rparr>"

definition flour :: ingredient where
  "flour = \<lparr>ingredient_name = ''flour'', cookTime = double 2\<rparr>"

definition batter :: recipe where
  "batter = \<lparr>recipe_name = ''batter'',
             requiredItems = [\<lparr>name = ''egg'', quantity = double 2\<rparr>, \<lparr>name = ''flour'', quantity = double 1\<rparr>]\<rparr>"

definition cake :: recipe where
  "cake = \<lparr>recipe_name = ''cake'',
           requiredItems = [\<lparr>name = ''batter'', quantity = double 3\<rparr>, \<lparr>name = ''egg'', quantity = double 1\<rparr>]\<rparr>"

definition scenarioA_requests :: "CookbookEntry safeParse list" where
  "scenarioA_requests =
     [ParseSuccess (Ingredient egg), ParseSuccess (Ingredient flour), ParseSuccess (Recipe batter)]"

definition scenarioA :: Cookbook where
  "scenarioA = snd (post_entries empty_cookbook scenarioA_requests)"

definition scenarioB :: Cookbook where
  "scenarioB = snd (post_entry scenarioA (ParseSuccess (Recipe cake)))"

text \<open>Scenario E: a recipe that references a name that was never registered.\<close>

definition pavlova :: recipe where
  "pavlova = \<lparr>recipe_name = ''pavlova'',
              requiredItems = [\<lparr>name = ''cake'', quantity = double 1\<rparr>, \<lparr>name = ''cream'', quantity = double 2\<rparr>]\<rparr>"

definition scenarioE :: Cookbook where
  "scenarioE = snd (post_entry scenarioB (ParseSuccess (Recipe pavlova)))"

text \<open>Entries that registration refuses: a name already taken, a required item twice.\<close>

definition egg_again :: recipe where
  "egg_again = \<lparr>recipe_name = ''egg'', requiredItems = []\<rparr>"

definition double_egg :: recipe where
  "double_egg = \<lparr>recipe_name = ''omelette'',
     requiredItems = [\<lparr>name = ''egg'', quantity = double 1\<rparr>, \<lparr>name = ''egg'', quantity = double 2\<rparr>]\<rparr>"



text \<open>
  Quantities at the edge of the doubles. \<open>2 ^ 53\<close> is 9007199254740992, and \<open>huge\<close> is
  \<open>2 ^ 1023\<close>, the double that prints as 8.98846567431158e+307; every number below
  passes the schema.
\<close>

definition huge :: number where
  "huge = double (2 ^ 1023)"

definition yolk :: recipe where
  "yolk = \<lparr>recipe_name = ''yolk'', requiredItems = [\<lparr>name = ''egg'', quantity = double 1\<rparr>]\<rparr>"

definition custard :: recipe where
  "custard = \<lparr>recipe_name = ''custard'',
     requiredItems = [\<lparr>name = ''egg'', quantity = double 9007199254740992\<rparr>,
                      \<lparr>name = ''yolk'', quantity = double 1\<rparr>]\<rparr>"

definition custard_cookbook :: Cookbook where
  "custard_cookbook =
     snd (post_entries empty_cookbook
       [ParseSuccess (Ingredient egg), ParseSuccess (Recipe yolk), ParseSuccess (Recipe custard)])"

definition grain :: ingredient where
  "grain = \<lparr>ingredient_name = ''grain'', cookTime = double 1\<rparr>"

definition sack :: recipe where
  "sack = \<lparr>recipe_name = ''sack'',
     requiredItems = [\<lparr>name = ''grain'', quantity = double 134217729\<rparr>]\<rparr>"

definition silo :: recipe where
  "silo = \<lparr>recipe_name = ''silo'',
     requiredItems = [\<lparr>name = ''sack'', quantity = double 134217729\<rparr>]\<rparr>"

definition silo_cookbook :: Cookbook where
  "silo_cookbook =
     snd (post_entries empty_cookbook
       [ParseSuccess (Ingredient grain), ParseSuccess (Recipe sack), ParseSuccess (Recipe silo)])"

definition salt :: ingredient where
  "salt = \<lparr>ingredient_name = ''salt'', cookTime = double 0\<rparr>"

definition brine :: recipe where
  "brine = \<lparr>recipe_name = ''brine'',
     requiredItems = [\<lparr>name = ''salt'', quantity = huge\<rparr>]\<rparr>"

definition sea :: recipe where
  "sea = \<lparr>recipe_name = ''sea'', requiredItems = [\<lparr>name = ''brine'', quantity = double 2\<rparr>]\<rparr>"

definition ocean :: recipe where
  "ocean = \<lparr>recipe_name = ''ocean'', requiredItems = [\<lparr>name = ''sea'', quantity = double 0\<rparr>]\<rparr>"

definition ocean_cookbook :: Cookbook where
  "ocean_cookbook =
     snd (post_entries empty_cookbook
       [ParseSuccess (Ingredient salt), ParseSuccess (Recipe brine), ParseSuccess (Recipe sea),
        ParseSuccess (Recipe ocean)])"

text \<open>A recipe whose first required item is unknown and whose second is the recipe itself.\<close>

definition ghost_loop :: recipe where
  "ghost_loop = \<lparr>recipe_name = ''loop'',
     requiredItems = [\<lparr>name = ''ghost'', quantity = double 1\<rparr>, \<lparr>name = ''loop'', quantity = double 1\<rparr>]\<rparr>"

definition ghost_loop_cookbook :: Cookbook where
  "ghost_loop_cookbook = snd (post_entry empty_cookbook (ParseSuccess (Recipe ghost_loop)))"

text \<open>A recipe with no required items.\<close>

definition water :: recipe where
  "water = \<lparr>recipe_name = ''water'', requiredItems = []\<rparr>"

definition water_cookbook :: Cookbook where
  "water_cookbook = snd (post_entry empty_cookbook (ParseSuccess (Recipe water)))"

section \<open>Facts about binary64 rounding\<close>

lemma pow2_pos [simp]: "0 < pow2 k"
  by (simp add: pow2_def)

lemma pow2_nonneg [simp]: "0 \<le> pow2 k"
  by (simp add: pow2_def)

lemma pow2_nonzero [simp]: "pow2 k \<noteq> 0"
  by (simp add: pow2_def)

lemma pow2_abs [simp]: "\<bar>pow2 k\<bar> = pow2 k"
  by (simp add: pow2_def)

lemma pow2_add: "pow2 (j + k) = pow2 j * pow2 k"
  by (simp add: pow2_def powr_add)

lemma pow2_nat: "pow2 (int n) = 2 ^ n"
  by (simp add: pow2_def powr_realpow)

lemma pow2_0 [simp]: "pow2 0 = 1"
  by (simp add: pow2_def)

lemma pow2_1 [simp]: "pow2 1 = 2"
  by (simp add: pow2_def)

lemma pow2_numeral: "pow2 (numeral n) = 2 ^ numeral n"
  by (simp add: pow2_def)

lemma pow2_diff: "pow2 (j - k) = pow2 j / pow2 k"
  by (simp add: pow2_def powr_diff)

lemma pow2_le_iff [simp]: "pow2 j \<le> pow2 k \<longleftrightarrow> j \<le> k"
  by (simp add: pow2_def)

lemma pow2_less_iff [simp]: "pow2 j < pow2 k \<longleftrightarrow> j < k"
  by (simp add: pow2_def)

lemma floor_log2_bounds:
  assumes "x \<noteq> 0"
  shows "pow2 \<lfloor>log 2 \<bar>x\<bar>\<rfloor> \<le> \<bar>x\<bar>" and "\<bar>x\<bar> < pow2 (\<lfloor>log 2 \<bar>x\<bar>\<rfloor> + 1)"
proof -
  from assms have pos: "0 < \<bar>x\<bar>" by simp
  have "\<lfloor>log 2 \<bar>x\<bar>\<rfloor> = \<lfloor>log 2 \<bar>x\<bar>\<rfloor>" ..
  then have "2 powr real_of_int \<lfloor>log 2 \<bar>x\<bar>\<rfloor> \<le> \<bar>x\<bar>
      \<and> \<bar>x\<bar> < 2 powr real_of_int (\<lfloor>log 2 \<bar>x\<bar>\<rfloor> + 1)"
    using floor_log_eq_powr_iff [OF pos, of 2 "\<lfloor>log 2 \<bar>x\<bar>\<rfloor>"] by simp
  then show "pow2 \<lfloor>log 2 \<bar>x\<bar>\<rfloor> \<le> \<bar>x\<bar>" and "\<bar>x\<bar> < pow2 (\<lfloor>log 2 \<bar>x\<bar>\<rfloor> + 1)"
    by (simp_all add: pow2_def)
qed

lemma floor_log2_eq:
  assumes "pow2 k \<le> \<bar>x\<bar>" and "\<bar>x\<bar> < pow2 (k + 1)"
  shows "\<lfloor>log 2 \<bar>x\<bar>\<rfloor> = k"
proof -
  from assms(1) have pos: "0 < \<bar>x\<bar>" using pow2_pos [of k] by linarith
  show ?thesis
    using floor_log_eq_powr_iff [OF pos, of 2 k] assms by (simp add: pow2_def)
qed

lemma roundTiesToEven_bounds:
  shows "\<lfloor>y\<rfloor> \<le> roundTiesToEven y" and "roundTiesToEven y \<le> \<lceil>y\<rceil>"
proof -
  show "\<lfloor>y\<rfloor> \<le> roundTiesToEven y"
    by (simp add: roundTiesToEven_def Let_def)
  show "roundTiesToEven y \<le> \<lceil>y\<rceil>"
  proof (cases "y = of_int \<lfloor>y\<rfloor>")
    case True
    then have "roundTiesToEven y = \<lfloor>y\<rfloor>" by (simp add: roundTiesToEven_def Let_def)
    then show ?thesis by (simp add: floor_le_ceiling)
  next
    case False
    then have "\<lceil>y\<rceil> = \<lfloor>y\<rfloor> + 1" by (simp add: ceiling_altdef)
    then show ?thesis by (simp add: roundTiesToEven_def Let_def)
  qed
qed

lemma roundTiesToEven_of_int [simp]: "roundTiesToEven (of_int n) = n"
  by (simp add: roundTiesToEven_def)

lemma roundTiesToEven_abs_le:
  assumes "\<bar>y\<bar> \<le> of_int N"
  shows "\<bar>roundTiesToEven y\<bar> \<le> N"
proof -
  from assms have "y \<le> of_int N" and "- of_int N \<le> y" by linarith+
  then have "\<lceil>y\<rceil> \<le> N" and "- N \<le> \<lfloor>y\<rfloor>"
    by (simp_all add: ceiling_le_iff le_floor_iff)
  with roundTiesToEven_bounds [of y] show ?thesis by linarith
qed

lemma roundTiesToEven_abs_ge:
  assumes "of_int N \<le> \<bar>y\<bar>"
  shows "N \<le> \<bar>roundTiesToEven y\<bar>"
proof (cases "0 \<le> y")
  case True
  with assms have "N \<le> \<lfloor>y\<rfloor>" by (simp add: le_floor_iff)
  with roundTiesToEven_bounds(1) [of y] show ?thesis by linarith
next
  case False
  with assms have "y \<le> of_int (- N)" by simp
  then have "\<lceil>y\<rceil> \<le> - N" by (simp only: ceiling_le_iff)
  with roundTiesToEven_bounds(2) [of y] show ?thesis by linarith
qed


lemma scaled_magnitude:
  assumes "x \<noteq> 0"
  shows "\<bar>x / pow2 (ulp_exponent x)\<bar> < 2 ^ 53"
proof -
  let ?L = "\<lfloor>log 2 \<bar>x\<bar>\<rfloor>"
  have "\<bar>x\<bar> < pow2 (?L + 1)" using assms by (rule floor_log2_bounds)
  also have "pow2 (?L + 1) \<le> pow2 (ulp_exponent x + 53)"
    by (simp add: ulp_exponent_def)
  also have "\<dots> = pow2 (ulp_exponent x) * 2 ^ 53"
    by (simp add: pow2_add pow2_numeral)
  finally have "\<bar>x\<bar> / pow2 (ulp_exponent x) < 2 ^ 53"
    by (simp add: pos_divide_less_eq mult.commute)
  then show ?thesis by simp
qed

lemma round_binary64_in_range:
  assumes "\<bar>round_binary64 x\<bar> < 2 ^ 1024"
  shows "round_binary64 x \<in> finite_doubles"
proof (cases "x = 0")
  case True
  have "(0::real) = of_int 0 * pow2 0" by simp
  then have "(0::real) \<in> finite_doubles" unfolding finite_doubles_def by fastforce
  with True show ?thesis by (simp add: round_binary64_def)
next
  case False
  let ?u = "ulp_exponent x"
  let ?n = "roundTiesToEven (x / pow2 ?u)"
  have r: "round_binary64 x = of_int ?n * pow2 ?u"
    using False by (simp add: round_binary64_def)
  have low: "- 1074 \<le> ?u" by (simp add: ulp_exponent_def)
  have "\<bar>x / pow2 ?u\<bar> \<le> of_int (2 ^ 53)"
    using scaled_magnitude [OF False] by simp
  then have n_le: "\<bar>?n\<bar> \<le> 2 ^ 53" by (rule roundTiesToEven_abs_le)
  have big: "2 ^ 52 \<le> \<bar>?n\<bar>" if "972 \<le> ?u"
  proof -
    let ?L = "\<lfloor>log 2 \<bar>x\<bar>\<rfloor>"
    from that have "?u = ?L - 52" by (simp add: ulp_exponent_def max_def split: if_splits)
    then have "pow2 (?u + 52) \<le> \<bar>x\<bar>"
      using floor_log2_bounds(1) [OF False] by simp
    moreover have "pow2 (?u + 52) = pow2 ?u * 2 ^ 52"
      by (simp add: pow2_add pow2_numeral)
    ultimately have "2 ^ 52 \<le> \<bar>x\<bar> / pow2 ?u"
      by (simp add: pos_le_divide_eq mult.commute)
    then have "of_int (2 ^ 52) \<le> \<bar>x / pow2 ?u\<bar>" by simp
    then show ?thesis by (rule roundTiesToEven_abs_ge)
  qed
  have mag: "\<bar>round_binary64 x\<bar> = of_int \<bar>?n\<bar> * pow2 ?u"
    by (simp add: r abs_mult)
  show ?thesis
  proof (cases "\<bar>?n\<bar> < 2 ^ 53")
    case True
    have "?u \<le> 971"
    proof (rule ccontr)
      assume "\<not> ?u \<le> 971"
      then have u: "972 \<le> ?u" by simp
      then have "(2::real) ^ 52 \<le> of_int \<bar>?n\<bar>"
        using big by (metis of_int_le_iff of_int_numeral of_int_power)
      moreover from u have "pow2 972 \<le> pow2 ?u" by simp
      ultimately have "2 ^ 52 * pow2 972 \<le> of_int \<bar>?n\<bar> * pow2 ?u"
        by (intro mult_mono) simp_all
      moreover have "2 ^ 52 * pow2 972 = (2::real) ^ 1024"
        by (simp add: pow2_numeral)
      ultimately show False using assms mag by simp
    qed
    with True low r show ?thesis unfolding finite_doubles_def by blast
  next
    case False
    with n_le have n: "\<bar>?n\<bar> = 2 ^ 53" by simp
    then have "?n = 2 * 2 ^ 52 \<or> ?n = 2 * - (2 ^ 52)" by (simp add: abs_if split: if_splits)
    then obtain m where half: "?n = 2 * m" and m: "\<bar>m\<bar> = 2 ^ 52" by auto
    have "?u + 1 \<le> 971"
    proof (rule ccontr)
      assume "\<not> ?u + 1 \<le> 971"
      then have "pow2 971 \<le> pow2 ?u" by simp
      then have "2 ^ 53 * pow2 971 \<le> of_int \<bar>?n\<bar> * pow2 ?u"
        by (simp add: n)
      moreover have "2 ^ 53 * pow2 971 = (2::real) ^ 1024"
        by (simp add: pow2_numeral)
      ultimately show False using assms mag by simp
    qed
    moreover have "round_binary64 x = of_int m * pow2 (?u + 1)"
    proof -
      have "of_int ?n = (2::real) * of_int m"
        using half by simp
      moreover have "pow2 (?u + 1) = pow2 ?u * 2"
        by (simp add: pow2_add)
      ultimately show ?thesis by (simp add: r)
    qed
    moreover from m have "\<bar>m\<bar> < 2 ^ 53" by simp
    moreover from low have "- 1074 \<le> ?u + 1" by simp
    ultimately show ?thesis unfolding finite_doubles_def by blast
  qed
qed


lemma finite_doubles_bound:
  assumes "x \<in> finite_doubles"
  shows "\<bar>x\<bar> < 2 ^ 1024"
proof -
  from assms obtain m k where x: "x = of_int m * pow2 k" and m: "\<bar>m\<bar> < 2 ^ 53" and k: "k \<le> 971"
    unfolding finite_doubles_def by blast
  from m have "\<bar>real_of_int m\<bar> < 2 ^ 53"
    by (metis of_int_abs of_int_less_iff of_int_numeral of_int_power)
  moreover from k have "pow2 k \<le> pow2 971" by simp
  ultimately have "\<bar>real_of_int m\<bar> * pow2 k < 2 ^ 53 * pow2 971"
    by (intro mult_less_le_imp_less) simp_all
  also have "2 ^ 53 * pow2 971 = (2::real) ^ 1024" by (simp add: pow2_numeral)
  finally show ?thesis by (simp add: x abs_mult)
qed

lemma round_binary64_representable:
  assumes "x \<in> finite_doubles"
  shows "round_binary64 x = x"
proof (cases "x = 0")
  case True
  then show ?thesis by (simp add: round_binary64_def)
next
  case False
  from assms obtain m k where x: "x = of_int m * pow2 k" and m: "\<bar>m\<bar> < 2 ^ 53"
    and k: "- 1074 \<le> k"
    unfolding finite_doubles_def by blast
  define u where "u = ulp_exponent x"
  let ?L = "\<lfloor>log 2 \<bar>x\<bar>\<rfloor>"
  from m have "\<bar>real_of_int m\<bar> < 2 ^ 53"
    by (metis of_int_abs of_int_less_iff of_int_numeral of_int_power)
  then have "\<bar>x\<bar> < 2 ^ 53 * pow2 k" by (simp add: x abs_mult)
  also have "\<dots> = pow2 (k + 53)" by (simp add: pow2_add pow2_numeral)
  finally have "pow2 ?L < pow2 (k + 53)"
    using floor_log2_bounds(1) [OF False] by linarith
  then have "?L < k + 53" by simp
  with k have u: "u \<le> k" by (simp add: u_def ulp_exponent_def)
  define j where "j = nat (k - u)"
  with u have kj: "k = u + int j" by simp
  have "pow2 k = pow2 u * 2 ^ j"
    by (subst kj) (simp add: pow2_add pow2_nat)
  then have "of_int m * pow2 k / pow2 u = of_int m * 2 ^ j" by simp
  then have scaled: "x / pow2 u = of_int (m * 2 ^ j)" by (simp add: x)
  have "round_binary64 x = of_int (roundTiesToEven (x / pow2 u)) * pow2 u"
    using False by (simp add: round_binary64_def u_def)
  also have "\<dots> = of_int (m * 2 ^ j) * pow2 u"
    by (simp only: scaled roundTiesToEven_of_int)
  also have "\<dots> = x / pow2 u * pow2 u" by (simp only: scaled)
  also have "\<dots> = x" by simp
  finally show ?thesis .
qed

lemma round_binary64_nonneg:
  assumes "0 \<le> x"
  shows "0 \<le> round_binary64 x"
proof (cases "x = 0")
  case True
  then show ?thesis by (simp add: round_binary64_def)
next
  case False
  with assms have "0 \<le> x / pow2 (ulp_exponent x)" by simp
  then have "0 \<le> \<lfloor>x / pow2 (ulp_exponent x)\<rfloor>" by simp
  with roundTiesToEven_bounds(1) [of "x / pow2 (ulp_exponent x)"]
  have "0 \<le> roundTiesToEven (x / pow2 (ulp_exponent x))" by linarith
  with False show ?thesis by (simp add: round_binary64_def)
qed

lemma round_binary64_overflow:
  assumes "2 ^ 1024 \<le> x"
  shows "2 ^ 1024 \<le> round_binary64 x"
proof -
  from assms have pos: "0 < x" and nz: "x \<noteq> 0"
    by (smt (verit) zero_less_power)+
  let ?L = "\<lfloor>log 2 \<bar>x\<bar>\<rfloor>" and ?u = "ulp_exponent x"
  let ?n = "roundTiesToEven (x / pow2 ?u)"
  from assms pos have "pow2 1024 \<le> \<bar>x\<bar>" by (simp add: pow2_numeral)
  also have "\<bar>x\<bar> < pow2 (?L + 1)" using nz by (rule floor_log2_bounds)
  finally have L: "1024 \<le> ?L" by simp
  then have u: "?u = ?L - 52" by (simp add: ulp_exponent_def)
  then have "pow2 (?u + 52) \<le> \<bar>x\<bar>"
    using floor_log2_bounds(1) [OF nz] by simp
  moreover have "pow2 (?u + 52) = pow2 ?u * 2 ^ 52"
    by (simp add: pow2_add pow2_numeral)
  ultimately have "2 ^ 52 \<le> x / pow2 ?u"
    using pos by (simp add: pos_le_divide_eq mult.commute)
  then have "2 ^ 52 \<le> \<lfloor>x / pow2 ?u\<rfloor>" by (simp add: le_floor_iff)
  with roundTiesToEven_bounds(1) [of "x / pow2 ?u"] have "2 ^ 52 \<le> ?n" by linarith
  then have "(2::real) ^ 52 \<le> of_int ?n"
    by (metis of_int_le_iff of_int_numeral of_int_power)
  moreover from L u have "pow2 972 \<le> pow2 ?u" by simp
  ultimately have "2 ^ 52 * pow2 972 \<le> of_int ?n * pow2 ?u"
    by (intro mult_mono) simp_all
  moreover have "2 ^ 52 * pow2 972 = (2::real) ^ 1024" by (simp add: pow2_numeral)
  ultimately show ?thesis using nz by (simp add: round_binary64_def)
qed


section \<open>Facts about the arithmetic of numbers\<close>

lemma zero_representable [simp]: "0 \<in> finite_doubles"
proof -
  have "(0::real) = of_int 0 * pow2 0" by simp
  then show ?thesis unfolding finite_doubles_def by fastforce
qed

lemma integer_representable:
  assumes "x \<in> \<int>" and "\<bar>x\<bar> < 2 ^ 53"
  shows "x \<in> finite_doubles"
proof -
  from assms(1) obtain m where x: "x = of_int m" by (auto elim: Ints_cases)
  with assms(2) have "\<bar>m\<bar> < 2 ^ 53"
    by (metis of_int_abs of_int_less_iff of_int_numeral of_int_power)
  moreover have "x = of_int m * pow2 0" by (simp add: x)
  ultimately show ?thesis unfolding finite_doubles_def by fastforce
qed

lemma scaled_representable:
  "\<bar>m\<bar> < 2 ^ 53 \<Longrightarrow> - 1074 \<le> k \<Longrightarrow> k \<le> 971 \<Longrightarrow> of_int m * pow2 k \<in> finite_doubles"
  unfolding finite_doubles_def by blast

lemma double_representable:
  assumes "x \<in> finite_doubles"
  shows "double x = Finite (Abs_finite64 x)"
proof -
  from assms have "\<bar>x\<bar> < 2 ^ 1024" by (rule finite_doubles_bound)
  then have "\<not> 2 ^ 1024 \<le> x" and "\<not> x \<le> - (2 ^ 1024)" by linarith+
  with assms show ?thesis
    by (simp add: double_def round_binary64_representable)
qed

lemma valueOf_double: "x \<in> finite_doubles \<Longrightarrow> valueOf (double x) = Some x"
  by (simp add: double_representable Abs_finite64_inverse)

lemma double_Rep [simp]: "double (Rep_finite64 a) = Finite a"
  by (simp add: double_representable Rep_finite64 Rep_finite64_inverse)

lemma double_inject:
  "x \<in> finite_doubles \<Longrightarrow> y \<in> finite_doubles \<Longrightarrow> double x = double y \<longleftrightarrow> x = y"
  by (simp add: double_representable Abs_finite64_inject)

lemma double_overflow: "2 ^ 1024 \<le> x \<Longrightarrow> double x = PosInfinity"
  using round_binary64_overflow [of x] by (simp add: double_def)

lemma double_add:
  "x \<in> finite_doubles \<Longrightarrow> y \<in> finite_doubles \<Longrightarrow> double x + double y = double (x + y)"
  by (simp add: double_representable Abs_finite64_inverse)

lemma double_mult:
  "x \<in> finite_doubles \<Longrightarrow> y \<in> finite_doubles \<Longrightarrow> double x * double y = double (x * y)"
  by (simp add: double_representable Abs_finite64_inverse)

lemma zero_number_Finite: "(0::number) = Finite (Abs_finite64 0)"
  by (simp add: zero_number_def double_representable)

lemma number_add_0_left [simp]: "0 + (x::number) = x"
  by (cases x) (simp_all add: zero_number_Finite Abs_finite64_inverse)

lemma number_add_0_right [simp]: "(x::number) + 0 = x"
  by (cases x) (simp_all add: zero_number_Finite Abs_finite64_inverse)

lemma number_add_commute: "(x::number) + y = y + x"
  by (cases x; cases y) (simp_all add: add.commute)

lemma number_mult_commute: "(x::number) * y = y * x"
  by (cases x; cases y) (simp_all add: mult.commute)

lemma ge0_double:
  assumes "0 \<le> x"
  shows "ge0 (double x)"
proof -
  let ?y = "round_binary64 x"
  from assms have y: "0 \<le> ?y" by (rule round_binary64_nonneg)
  show ?thesis
  proof (cases "2 ^ 1024 \<le> ?y")
    case True
    then show ?thesis by (simp add: double_def)
  next
    case False
    with y have "\<bar>?y\<bar> < 2 ^ 1024" by simp
    then have "?y \<in> finite_doubles" by (rule round_binary64_in_range)
    with y False show ?thesis
      by (simp add: double_def Abs_finite64_inverse) 
  qed
qed

lemma nonneg_or_NaN_add:
  "nonneg_or_NaN x \<Longrightarrow> nonneg_or_NaN y \<Longrightarrow> nonneg_or_NaN (x + y)"
  by (cases x; cases y) (simp_all add: nonneg_or_NaN_def ge0_double)

lemma nonneg_or_NaN_mult:
  "nonneg_or_NaN x \<Longrightarrow> nonneg_or_NaN y \<Longrightarrow> nonneg_or_NaN (x * y)"
  by (cases x; cases y) (auto simp: nonneg_or_NaN_def ge0_double signed_infinity_def)

lemma nonneg_or_NaN_0 [simp]: "nonneg_or_NaN 0"
  by (simp add: nonneg_or_NaN_def zero_number_Finite Abs_finite64_inverse)


lemma round_binary64_at:
  assumes "pow2 e \<le> \<bar>x\<bar>" and "\<bar>x\<bar> < pow2 (e + 1)" and "- 1022 \<le> e"
  shows "round_binary64 x = of_int (roundTiesToEven (x / pow2 (e - 52))) * pow2 (e - 52)"
proof -
  from assms(1,2) have "\<lfloor>log 2 \<bar>x\<bar>\<rfloor> = e" by (rule floor_log2_eq)
  with assms(3) have "ulp_exponent x = e - 52" by (simp add: ulp_exponent_def)
  moreover from assms(1) have "x \<noteq> 0" using pow2_pos [of e] by (cases "x = 0") simp_all
  ultimately show ?thesis by (simp add: round_binary64_def)
qed

lemma two_53_representable: "9007199254740992 \<in> finite_doubles"
  using scaled_representable [of "2 ^ 52" 1] by simp

lemma two_1023_representable: "2 ^ 1023 \<in> finite_doubles"
  using scaled_representable [of "2 ^ 52" 971] by (simp add: pow2_numeral)

lemma round_two_53_plus_1: "round_binary64 9007199254740993 = 9007199254740992"
proof -
  have "round_binary64 9007199254740993 =
      of_int (roundTiesToEven (9007199254740993 / pow2 (53 - 52))) * pow2 (53 - 52)"
    by (rule round_binary64_at) (simp_all add: pow2_numeral)
  also have "roundTiesToEven (9007199254740993 / pow2 (53 - 52)) = 4503599627370496"
    by (simp add: roundTiesToEven_def)
  finally show ?thesis by simp
qed

lemma double_two_53_plus_1:
  "double 9007199254740992 + double 1 = double 9007199254740992"
proof -
  have "double 9007199254740992 + double 1 = double 9007199254740993"
    by (simp add: double_add two_53_representable integer_representable)
  also have "\<dots> = double 9007199254740992"
    by (simp add: double_def round_two_53_plus_1 round_binary64_representable
        two_53_representable)
  finally show ?thesis .
qed

lemma round_square: "round_binary64 18014398777917441 = 18014398777917440"
proof -
  have "round_binary64 18014398777917441 =
      of_int (roundTiesToEven (18014398777917441 / pow2 (54 - 52))) * pow2 (54 - 52)"
    by (rule round_binary64_at) (simp_all add: pow2_numeral)
  also have "roundTiesToEven (18014398777917441 / pow2 (54 - 52)) = 4503599694479360"
    by (simp add: roundTiesToEven_def pow2_numeral)
  finally show ?thesis by (simp add: pow2_numeral)
qed

lemma square_representable: "18014398777917440 \<in> finite_doubles"
  using scaled_representable [of 4503599694479360 2] by (simp add: pow2_numeral)

lemma double_square:
  "double 134217729 * double 134217729 = double 18014398777917440"
proof -
  have "double 134217729 * double 134217729 = double 18014398777917441"
    by (simp add: double_mult integer_representable)
  also have "\<dots> = double 18014398777917440"
    by (simp add: double_def round_square round_binary64_representable square_representable)
  finally show ?thesis .
qed

lemma double_overflow_product: "double (2 ^ 1023) * double 2 = PosInfinity"
proof -
  have "double (2 ^ 1023) * double 2 = double (2 ^ 1023 * 2)"
    by (rule double_mult) (rule two_1023_representable, simp add: integer_representable)
  also have "\<dots> = PosInfinity" by (rule double_overflow) simp
  finally show ?thesis .
qed

lemma infinity_times_zero: "PosInfinity * 0 = NaN" "0 * PosInfinity = NaN"
  by (simp_all add: zero_number_Finite Abs_finite64_inverse)

lemma double_0: "double 0 = 0"
  by (simp add: zero_number_def)

section \<open>Basic facts about the resolver\<close>


lemma resolveItems_Nil [simp]: "resolveItems cb [] acc = Some (Val acc)"
  by (subst resolveItems.simps) simp

lemma resolveItems_ingredient:
  "ingredients cb (name it) = Some ing \<Longrightarrow>
   resolveItems cb (it # rest) acc = resolveItems cb rest (addToMapEntry (name it) (quantity it) acc)"
  by (subst resolveItems.simps) simp

lemma resolveItems_unknown:
  "ingredients cb (name it) = None \<Longrightarrow> recipes cb (name it) = None \<Longrightarrow>
   resolveItems cb (it # rest) acc = Some Null"
  by (subst resolveItems.simps) simp

lemma resolveItems_recipe:
  "ingredients cb (name it) = None \<Longrightarrow> recipes cb (name it) = Some r \<Longrightarrow>
   resolveItems cb (it # rest) acc =
     (case getRecipeIngredients cb r of
        None \<Rightarrow> None
      | Some Null \<Rightarrow> Some Null
      | Some (Val t) \<Rightarrow> resolveItems cb rest (addScaled (quantity it) t acc))"
  by (subst resolveItems.simps)
     (simp add: getRecipeIngredients_def split: option.splits nullable.splits)

lemma resolves_complete: "resolves cb items acc res \<Longrightarrow> resolveItems cb items acc = Some res"
  by (induction rule: resolves.induct)
     (simp_all add: resolveItems_ingredient resolveItems_unknown resolveItems_recipe
        getRecipeIngredients_def)

lemma resolves_sound:
  assumes "resolveItems cb items acc = Some res"
  shows "resolves cb items acc res"
proof (rule resolveItems.raw_induct [OF _ assms])
  fix f cb items acc res
  assume IH: "\<And>cb items acc y. f cb items acc = Some y \<Longrightarrow> resolves cb items acc y"
  assume step: "(case items of
        [] \<Rightarrow> Some (Val acc)
      | it # rest \<Rightarrow>
          (case ingredients cb (name it) of
             Some ing \<Rightarrow> f cb rest (addToMapEntry (name it) (quantity it) acc)
           | None \<Rightarrow>
               (case recipes cb (name it) of
                  Some r \<Rightarrow>
                    Option.bind (f cb (requiredItems r) [])
                      (\<lambda>inner. case inner of
                          Null \<Rightarrow> Some Null
                        | Val t \<Rightarrow> f cb rest (addScaled (quantity it) t acc))
                | None \<Rightarrow> Some Null))) = Some res"
  show "resolves cb items acc res"
  proof (cases items)
    case Nil
    with step show ?thesis by (auto intro: resolves.intros)
  next
    case (Cons it rest)
    show ?thesis
    proof (cases "ingredients cb (name it)")
      case (Some ing)
      with step IH Cons show ?thesis by (auto intro: resolves.intros)
    next
      case None
      note ing = this
      show ?thesis
      proof (cases "recipes cb (name it)")
        case None
        with step Cons ing show ?thesis by (auto intro: resolves.intros)
      next
        case (Some r)
        with step Cons ing obtain inner where
          inner: "f cb (requiredItems r) [] = Some inner" and
          rest: "(case inner of Null \<Rightarrow> Some Null
                  | Val t \<Rightarrow> f cb rest (addScaled (quantity it) t acc)) = Some res"
          by (auto simp: bind_eq_Some_conv)
        show ?thesis
        proof (cases inner)
          case Null
          with inner rest IH Some ing Cons show ?thesis
            by (auto intro: resolves_sub_null)
        next
          case (Val t)
          with inner rest have "resolves cb (requiredItems r) [] (Val t)"
            and "resolves cb rest (addScaled (quantity it) t acc) res"
            by (auto intro: IH)
          with Some ing Cons show ?thesis
            by (simp add: resolves_sub_val)
        qed
      qed
    qed
  qed
qed

lemma resolves_iff: "resolveItems cb items acc = Some res \<longleftrightarrow> resolves cb items acc res"
  using resolves_sound resolves_complete by blast

section \<open>Facts about tables\<close>

lemma map_of_addToMapEntry:
  "map_of (addToMapEntry k q m) = (map_of m)(k \<mapsto> quantityOf m k + q)"
  by (simp add: addToMapEntry_def quantityOf_def update_conv')

lemma keys_addToMapEntry: "fst ` set (addToMapEntry k q m) = insert k (fst ` set m)"
  by (simp add: addToMapEntry_def dom_update)

lemma distinct_addToMapEntry:
  "distinct (map fst m) \<Longrightarrow> distinct (map fst (addToMapEntry k q m))"
  by (simp add: addToMapEntry_def distinct_update)

lemma addToMapEntry_fresh:
  "k \<notin> fst ` set m \<Longrightarrow> addToMapEntry k q m = m @ [(k, q)]"
proof -
  assume fresh: "k \<notin> fst ` set m"
  then have "map_of m k = None" by (simp add: map_of_eq_None_iff)
  moreover from fresh have "AList.update k v m = m @ [(k, v)]" for v
    by (induction m) auto
  ultimately show ?thesis by (simp add: addToMapEntry_def)
qed

lemma keys_addScaled: "fst ` set (addScaled m t acc) = fst ` set acc \<union> fst ` set t"
  unfolding addScaled_def
  by (induction t arbitrary: acc) (simp_all add: keys_addToMapEntry split_beta)

lemma distinct_addScaled:
  "distinct (map fst acc) \<Longrightarrow> distinct (map fst (addScaled m t acc))"
  unfolding addScaled_def
  by (induction t arbitrary: acc) (auto simp: distinct_addToMapEntry)

text \<open>
  The effect of the merge on one name, for a table \<open>t\<close> without repeated keys: a name
  that \<open>t\<close> lacks keeps its entry, a name that \<open>t\<close> has gets its entry (0 when absent)
  plus the quantity in \<open>t\<close> times \<open>m\<close>.
\<close>

lemma map_of_addScaled:
  "distinct (map fst t) \<Longrightarrow>
   map_of (addScaled m t acc) x =
     (case map_of t x of
        None \<Rightarrow> map_of acc x
      | Some q \<Rightarrow> Some (quantityOf acc x + q * m))"
proof (induction t arbitrary: acc)
  case Nil
  show ?case by (simp add: addScaled_def)
next
  case (Cons kq t)
  obtain k q where kq: "kq = (k, q)" by (cases kq)
  from Cons.prems kq have fresh: "k \<notin> fst ` set t" and dist: "distinct (map fst t)" by auto
  have step: "addScaled m ((k', q') # t) acc = addScaled m t (addToMapEntry k' (q' * m) acc)"
    for k' q'
    by (simp add: addScaled_def)
  show ?case
  proof (cases "k = x")
    case True
    with fresh have "map_of t x = None" by (simp add: map_of_eq_None_iff)
    with True show ?thesis
      by (simp add: step Cons.IH [OF dist] kq map_of_addToMapEntry)
  next
    case False
    then show ?thesis
      by (simp add: step Cons.IH [OF dist] kq map_of_addToMapEntry quantityOf_def
          split: option.splits)
  qed
qed

lemma addScaled_append:
  "distinct (map fst t) \<Longrightarrow> fst ` set acc \<inter> fst ` set t = {} \<Longrightarrow>
   addScaled m t acc = acc @ map (\<lambda>(k, q). (k, q * m)) t"
proof (induction t arbitrary: acc)
  case Nil
  show ?case by (simp add: addScaled_def)
next
  case (Cons kq t)
  obtain k q where kq: "kq = (k, q)" by (cases kq)
  from Cons.prems kq have fresh: "k \<notin> fst ` set acc" by auto
  then have step: "addToMapEntry k (q * m) acc = acc @ [(k, q * m)]"
    by (rule addToMapEntry_fresh)
  have "addScaled m (kq # t) acc = addScaled m t (acc @ [(k, q * m)])"
    by (simp add: addScaled_def kq step)
  also have "\<dots> = (acc @ [(k, q * m)]) @ map (\<lambda>(k, q). (k, q * m)) t"
    using Cons.prems kq by (intro Cons.IH) auto
  finally show ?case by (simp add: kq)
qed

lemma addScaled_empty:
  "distinct (map fst t) \<Longrightarrow> addScaled m t [] = map (\<lambda>(k, q). (k, q * m)) t"
  using addScaled_append [of t "[]" m] by simp

section \<open>Invariants of resolved tables\<close>

lemma resolves_keys_mono:
  "resolves cb items acc res \<Longrightarrow> res = Val tbl \<Longrightarrow> fst ` set acc \<subseteq> fst ` set tbl"
proof (induction arbitrary: tbl rule: resolves.induct)
  case (resolves_ingredient it ing rest acc res)
  from resolves_ingredient.IH [OF resolves_ingredient.prems]
  show ?case by (simp add: keys_addToMapEntry)
next
  case (resolves_sub_val it r t rest acc res)
  from resolves_sub_val.IH(2) [OF resolves_sub_val.prems]
  show ?case by (simp add: keys_addScaled)
qed simp_all

lemma resolves_keys_ingredients:
  "resolves cb items acc res \<Longrightarrow> res = Val tbl \<Longrightarrow>
   fst ` set acc \<subseteq> dom (ingredients cb) \<Longrightarrow> fst ` set tbl \<subseteq> dom (ingredients cb)"
proof (induction arbitrary: tbl rule: resolves.induct)
  case (resolves_ingredient it ing rest acc res)
  from resolves_ingredient.hyps(1) have "name it \<in> dom (ingredients cb)" by (rule domI)
  with resolves_ingredient.prems(2)
  have "fst ` set (addToMapEntry (name it) (quantity it) acc) \<subseteq> dom (ingredients cb)"
    by (simp add: keys_addToMapEntry)
  with resolves_ingredient.prems(1) show ?case by (rule resolves_ingredient.IH)
next
  case (resolves_sub_val it r t rest acc res)
  have "fst ` set t \<subseteq> dom (ingredients cb)"
    by (rule resolves_sub_val.IH(1)) simp_all
  with resolves_sub_val.prems(2)
  have "fst ` set (addScaled (quantity it) t acc) \<subseteq> dom (ingredients cb)"
    by (simp add: keys_addScaled)
  with resolves_sub_val.prems(1) show ?case by (rule resolves_sub_val.IH(2))
qed simp_all

lemma resolves_distinct:
  "resolves cb items acc res \<Longrightarrow> res = Val tbl \<Longrightarrow>
   distinct (map fst acc) \<Longrightarrow> distinct (map fst tbl)"
  by (induction arbitrary: tbl rule: resolves.induct)
     (simp_all add: distinct_addToMapEntry distinct_addScaled)

lemma resolves_direct_keys:
  "resolves cb items acc res \<Longrightarrow> res = Val tbl \<Longrightarrow> it \<in> set items \<Longrightarrow>
   ingredients cb (name it) \<noteq> None \<Longrightarrow> name it \<in> fst ` set tbl"
proof (induction arbitrary: tbl rule: resolves.induct)
  case (resolves_ingredient it' ing rest acc res)
  show ?case
  proof (cases "it = it'")
    case True
    have "name it' \<in> fst ` set (addToMapEntry (name it') (quantity it') acc)"
      by (simp add: keys_addToMapEntry)
    with resolves_keys_mono [OF resolves_ingredient.hyps(2) resolves_ingredient.prems(1)] True
    show ?thesis by auto
  next
    case False
    with resolves_ingredient.prems have "it \<in> set rest" by simp
    then show ?thesis
      using resolves_ingredient.IH resolves_ingredient.prems by blast
  qed
next
  case (resolves_sub_val it' r t rest acc res)
  from resolves_sub_val.prems resolves_sub_val.hyps(1) have "it \<in> set rest" by auto
  then show ?case
    using resolves_sub_val.IH(2) resolves_sub_val.prems by blast
qed simp_all

lemma getRecipeIngredients_iff:
  "getRecipeIngredients cb r = Some res \<longleftrightarrow> resolves cb (requiredItems r) [] res"
  by (simp add: getRecipeIngredients_def resolves_iff)

lemma resolved_distinct:
  "getRecipeIngredients cb r = Some (Val tbl) \<Longrightarrow> distinct (map fst tbl)"
  using resolves_distinct [of cb "requiredItems r" "[]" "Val tbl" tbl]
  by (simp add: getRecipeIngredients_iff)

lemma resolved_keys:
  "getRecipeIngredients cb r = Some (Val tbl) \<Longrightarrow> fst ` set tbl \<subseteq> dom (ingredients cb)"
  using resolves_keys_ingredients [of cb "requiredItems r" "[]" "Val tbl" tbl]
  by (simp add: getRecipeIngredients_iff)

text \<open>
  The entry of a name in the result is the entry at the start, changed by the
  contributions of the items in the order of the list.
\<close>

lemma resolves_entry:
  "resolves cb items acc res \<Longrightarrow> res = Val tbl \<Longrightarrow>
   map_of tbl x = foldl accumulate (map_of acc x) (map (contribution cb x) items)"
proof (induction arbitrary: tbl rule: resolves.induct)
  case (resolves_Nil acc)
  then show ?case by simp
next
  case (resolves_ingredient it ing rest acc res)
  have "accumulate (map_of acc x) (contribution cb x it) =
      map_of (addToMapEntry (name it) (quantity it) acc) x"
    using resolves_ingredient.hyps(1)
    by (simp add: contribution_def accumulate_def map_of_addToMapEntry quantityOf_def)
  with resolves_ingredient.IH [OF resolves_ingredient.prems] show ?case by simp
next
  case (resolves_unknown it rest acc)
  then show ?case by simp
next
  case (resolves_sub_null it r rest acc)
  then show ?case by simp
next
  case (resolves_sub_val it r t rest acc res)
  from resolves_sub_val.hyps(3) have inner: "getRecipeIngredients cb r = Some (Val t)"
    by (simp add: getRecipeIngredients_iff)
  then have "distinct (map fst t)" by (rule resolved_distinct)
  then have "map_of (addScaled (quantity it) t acc) x =
      (case map_of t x of
         None \<Rightarrow> map_of acc x
       | Some q \<Rightarrow> Some (quantityOf acc x + q * quantity it))"
    by (rule map_of_addScaled)
  moreover have "contribution cb x it = map_option (\<lambda>q. q * quantity it) (map_of t x)"
    using resolves_sub_val.hyps(1,2) inner by (simp add: contribution_def)
  ultimately have "accumulate (map_of acc x) (contribution cb x it) =
      map_of (addScaled (quantity it) t acc) x"
    by (simp add: accumulate_def quantityOf_def split: option.splits)
  with resolves_sub_val.IH(2) [OF resolves_sub_val.prems] show ?case by simp
qed

lemma resolved_entry:
  "getRecipeIngredients cb r = Some (Val tbl) \<Longrightarrow>
   map_of tbl x = foldl accumulate None (map (contribution cb x) (requiredItems r))"
  using resolves_entry [of cb "requiredItems r" "[]" "Val tbl" tbl x]
  by (simp add: getRecipeIngredients_iff)

lemma nonneg_addToMapEntry:
  assumes "\<forall>v \<in> snd ` set m. nonneg_or_NaN v" and "nonneg_or_NaN q"
  shows "\<forall>v \<in> snd ` set (addToMapEntry k q m). nonneg_or_NaN v"
proof
  fix v assume "v \<in> snd ` set (addToMapEntry k q m)"
  then obtain k' where "(k', v) \<in> set (addToMapEntry k q m)" by auto
  then have "(k', v) \<in> set m \<or> v = quantityOf m k + q"
    unfolding addToMapEntry_def quantityOf_def
    by (induction m) (auto split: if_splits)
  moreover have "nonneg_or_NaN (quantityOf m k)"
  proof (cases "map_of m k")
    case None
    then show ?thesis by (simp add: quantityOf_def)
  next
    case (Some old)
    then have "(k, old) \<in> set m" by (rule map_of_SomeD)
    then have "old \<in> snd ` set m" by force
    with assms(1) have "nonneg_or_NaN old" by blast
    with Some show ?thesis by (simp add: quantityOf_def)
  qed
  ultimately show "nonneg_or_NaN v" using assms by (force intro: nonneg_or_NaN_add)
qed

lemma nonneg_addScaled:
  "\<forall>v \<in> snd ` set acc. nonneg_or_NaN v \<Longrightarrow> \<forall>v \<in> snd ` set t. nonneg_or_NaN v \<Longrightarrow>
   nonneg_or_NaN m \<Longrightarrow> \<forall>v \<in> snd ` set (addScaled m t acc). nonneg_or_NaN v"
proof (induction t arbitrary: acc)
  case Nil
  then show ?case by (simp add: addScaled_def)
next
  case (Cons kq t)
  obtain k q where kq: "kq = (k, q)" by (cases kq)
  with Cons.prems have "nonneg_or_NaN (q * m)" by (simp add: nonneg_or_NaN_mult)
  with Cons.prems(1) have "\<forall>v \<in> snd ` set (addToMapEntry k (q * m) acc). nonneg_or_NaN v"
    by (rule nonneg_addToMapEntry)
  moreover from Cons.prems(2) have "\<forall>v \<in> snd ` set t. nonneg_or_NaN v" by simp
  ultimately have "\<forall>v \<in> snd ` set (addScaled m t (addToMapEntry k (q * m) acc)). nonneg_or_NaN v"
    using Cons.prems(3) by (rule Cons.IH)
  then show ?case by (simp add: addScaled_def kq)
qed

lemma resolves_nonneg:
  "resolves cb items acc res \<Longrightarrow> res = Val tbl \<Longrightarrow> store_nonneg cb \<Longrightarrow>
   \<forall>it \<in> set items. ge0 (quantity it) \<Longrightarrow> \<forall>v \<in> snd ` set acc. nonneg_or_NaN v \<Longrightarrow>
   \<forall>v \<in> snd ` set tbl. nonneg_or_NaN v"
proof (induction arbitrary: tbl rule: resolves.induct)
  case (resolves_Nil acc)
  then show ?case by simp
next
  case (resolves_ingredient it ing rest acc res)
  from resolves_ingredient.prems(3) have q: "nonneg_or_NaN (quantity it)"
    and rest: "\<forall>it \<in> set rest. ge0 (quantity it)"
    by (simp_all add: nonneg_or_NaN_def)
  from resolves_ingredient.prems(4) q
  have "\<forall>v \<in> snd ` set (addToMapEntry (name it) (quantity it) acc). nonneg_or_NaN v"
    by (rule nonneg_addToMapEntry)
  with resolves_ingredient.prems(1,2) rest show ?case
    by (rule resolves_ingredient.IH)
next
  case (resolves_unknown it rest acc)
  then show ?case by simp
next
  case (resolves_sub_null it r rest acc)
  then show ?case by simp
next
  case (resolves_sub_val it r t rest acc res)
  from resolves_sub_val.prems(3) have q: "nonneg_or_NaN (quantity it)"
    and rest: "\<forall>it \<in> set rest. ge0 (quantity it)"
    by (simp_all add: nonneg_or_NaN_def)
  from resolves_sub_val.prems(2) resolves_sub_val.hyps(2)
  have "\<forall>it \<in> set (requiredItems r). ge0 (quantity it)"
    unfolding store_nonneg_def by blast
  then have "\<forall>v \<in> snd ` set t. nonneg_or_NaN v"
    using resolves_sub_val.prems(2) by (intro resolves_sub_val.IH(1) [of t]) simp_all
  with resolves_sub_val.prems(4)
  have "\<forall>v \<in> snd ` set (addScaled (quantity it) t acc). nonneg_or_NaN v"
    using q by (rule nonneg_addScaled)
  with resolves_sub_val.prems(1,2) rest show ?case
    by (rule resolves_sub_val.IH(2))
qed

section \<open>Termination on finite trees\<close>

lemma resolveItems_returns:
  assumes sub: "\<And>it r'. it \<in> set items \<Longrightarrow> ingredients cb (name it) = None \<Longrightarrow>
      recipes cb (name it) = Some r' \<Longrightarrow> \<exists>res. getRecipeIngredients cb r' = Some res"
  shows "\<exists>res. resolveItems cb items acc = Some res"
  using sub
proof (induction items arbitrary: acc)
  case Nil
  show ?case by simp
next
  case (Cons it rest)
  have rest: "\<exists>res. resolveItems cb rest acc' = Some res" for acc'
    by (rule Cons.IH) (rule Cons.prems, simp_all)
  show ?case
  proof (cases "ingredients cb (name it)")
    case (Some ing)
    with rest show ?thesis by (simp add: resolveItems_ingredient)
  next
    case None
    note ing = this
    show ?thesis
    proof (cases "recipes cb (name it)")
      case None
      with ing show ?thesis by (simp add: resolveItems_unknown)
    next
      case (Some r')
      with ing Cons.prems [of it r'] obtain res where "getRecipeIngredients cb r' = Some res"
        by auto
      with ing Some rest show ?thesis
        by (cases res) (simp_all add: resolveItems_recipe)
    qed
  qed
qed

lemma finite_tree_returns:
  "finite_tree cb r \<Longrightarrow> \<exists>res. getRecipeIngredients cb r = Some res"
proof (induction rule: finite_tree.induct)
  case (finite_tree_node r)
  have "\<exists>res. resolveItems cb (requiredItems r) [] = Some res"
  proof (rule resolveItems_returns)
    fix it r'
    assume "it \<in> set (requiredItems r)" "ingredients cb (name it) = None"
      "recipes cb (name it) = Some r'"
    then have "r' \<in> sub_recipes cb r" by (auto simp: sub_recipes_def)
    then show "\<exists>res. getRecipeIngredients cb r' = Some res" by (rule finite_tree_node.IH)
  qed
  then show ?case by (simp add: getRecipeIngredients_def)
qed

text \<open>A failure anywhere in the list makes the whole loop fail, once it returns.\<close>

lemma resolves_unknown_item:
  "resolves cb items acc res \<Longrightarrow> it \<in> set items \<Longrightarrow> ingredients cb (name it) = None \<Longrightarrow>
   recipes cb (name it) = None \<Longrightarrow> res = Null"
  by (induction rule: resolves.induct) auto

lemma resolves_failing_sub:
  "resolves cb items acc res \<Longrightarrow> it \<in> set items \<Longrightarrow> ingredients cb (name it) = None \<Longrightarrow>
   recipes cb (name it) = Some r \<Longrightarrow> resolves cb (requiredItems r) [] Null \<Longrightarrow> res = Null"
proof (induction rule: resolves.induct)
  case (resolves_sub_val it' r' t rest acc res)
  show ?case
  proof (cases "it = it'")
    case True
    with resolves_sub_val have "resolveItems cb (requiredItems r) [] = Some Null"
      "resolveItems cb (requiredItems r) [] = Some (Val t)"
      by (simp_all add: resolves_iff)
    then show ?thesis by simp
  next
    case False
    with resolves_sub_val show ?thesis by simp
  qed
qed auto

lemma resolves_sub_success:
  "resolves cb items acc res \<Longrightarrow> res = Val tbl \<Longrightarrow> it \<in> set items \<Longrightarrow>
   ingredients cb (name it) = None \<Longrightarrow> recipes cb (name it) = Some r \<Longrightarrow>
   \<exists>t. resolves cb (requiredItems r) [] (Val t)"
proof (induction arbitrary: tbl rule: resolves.induct)
  case (resolves_ingredient it' ing rest acc res)
  from resolves_ingredient.prems resolves_ingredient.hyps(1) have "it \<in> set rest" by auto
  with resolves_ingredient.prems show ?case
    by (intro resolves_ingredient.IH [of tbl]) simp_all
next
  case (resolves_sub_val it' r' t rest acc res)
  show ?case
  proof (cases "it = it'")
    case True
    with resolves_sub_val.hyps(2,3) resolves_sub_val.prems(4) show ?thesis by auto
  next
    case False
    with resolves_sub_val.prems have "it \<in> set rest" by simp
    with resolves_sub_val.prems show ?thesis
      by (intro resolves_sub_val.IH(2) [of tbl]) simp_all
  qed
qed simp_all

lemma reaches_unknown_fails:
  "reaches cb r n \<Longrightarrow> ingredients cb n = None \<Longrightarrow> recipes cb n = None \<Longrightarrow>
   getRecipeIngredients cb r = Some res \<Longrightarrow> res = Null"
proof (induction arbitrary: res rule: reaches.induct)
  case (reaches_item it r)
  then show ?case
    using resolves_unknown_item [of cb "requiredItems r" "[]" res it]
    by (simp add: getRecipeIngredients_iff)
next
  case (reaches_sub r' r n)
  from reaches_sub.hyps(1) obtain it where it: "it \<in> set (requiredItems r)"
    "ingredients cb (name it) = None" "recipes cb (name it) = Some r'"
    by (auto simp: sub_recipes_def)
  from reaches_sub.prems(3) have top: "resolves cb (requiredItems r) [] res"
    by (simp add: getRecipeIngredients_iff)
  show ?case
  proof (cases res)
    case Null
    then show ?thesis .
  next
    case (Val tbl)
    with top it obtain t where "resolves cb (requiredItems r') [] (Val t)"
      using resolves_sub_success by blast
    then have "getRecipeIngredients cb r' = Some (Val t)"
      by (simp add: getRecipeIngredients_iff)
    with reaches_sub.IH [OF reaches_sub.prems(1,2)] have "Val t = Null" .
    then show ?thesis by simp
  qed
qed

section \<open>The summary loop\<close>

lemma summaryLoop_known:
  "fst ` set t \<subseteq> dom (ingredients cb) \<Longrightarrow>
   summaryLoop cb t s =
     Inr (s\<lparr>summary_cookTime :=
              foldl (\<lambda>total (k, q). total + cookTime (the (ingredients cb k)) * q)
                (summary_cookTime s) t,
            summary_ingredients :=
              summary_ingredients s @ map (\<lambda>(k, q). \<lparr>name = k, quantity = q\<rparr>) t\<rparr>)"
proof (induction t arbitrary: s)
  case Nil
  show ?case by simp
next
  case (Cons kq t)
  obtain k q where kq: "kq = (k, q)" by (cases kq)
  with Cons.prems obtain ing where ing: "ingredients cb k = Some ing" by auto
  from Cons.prems have "fst ` set t \<subseteq> dom (ingredients cb)" by simp
  from Cons.IH [OF this] ing show ?case
    by (simp add: kq)
qed

lemma buildSummary_resolved:
  assumes "getRecipeIngredients cb r = Some (Val tbl)"
  shows "buildSummary cb r =
     Some (Inr (Val \<lparr>summary_name = recipe_name r,
        summary_cookTime =
          foldl (\<lambda>total (k, q). total + cookTime (the (ingredients cb k)) * q) 0 tbl,
        summary_ingredients = map (\<lambda>(k, q). \<lparr>name = k, quantity = q\<rparr>) tbl\<rparr>))"
proof -
  from assms have "fst ` set tbl \<subseteq> dom (ingredients cb)" by (rule resolved_keys)
  then show ?thesis
    by (simp add: buildSummary_def assms summaryLoop_known)
qed

lemmas number_eval = double_add double_mult integer_representable double_0

section \<open>The scenarios, evaluated\<close>

lemma scenarioA_eq:
  "scenarioA = \<lparr>recipes = [''batter'' \<mapsto> batter], ingredients = [''egg'' \<mapsto> egg, ''flour'' \<mapsto> flour]\<rparr>"
  by (simp add: scenarioA_def scenarioA_requests_def post_entry_def empty_cookbook_def
      egg_def flour_def batter_def)

lemma scenarioB_eq:
  "scenarioB = \<lparr>recipes = [''batter'' \<mapsto> batter, ''cake'' \<mapsto> cake],
                 ingredients = [''egg'' \<mapsto> egg, ''flour'' \<mapsto> flour]\<rparr>"
  by (simp add: scenarioB_def scenarioA_eq post_entry_def cake_def)

lemma scenarioE_eq:
  "scenarioE = \<lparr>recipes = [''batter'' \<mapsto> batter, ''cake'' \<mapsto> cake, ''pavlova'' \<mapsto> pavlova],
                 ingredients = [''egg'' \<mapsto> egg, ''flour'' \<mapsto> flour]\<rparr>"
  by (simp add: scenarioE_def scenarioB_eq post_entry_def pavlova_def)


lemma water_cookbook_eq:
  "water_cookbook = \<lparr>recipes = [''water'' \<mapsto> water], ingredients = Map.empty\<rparr>"
  by (simp add: water_cookbook_def post_entry_def empty_cookbook_def water_def)

lemma batter_A: "getRecipeIngredients scenarioA batter = Some (Val [(''egg'', double 2), (''flour'', double 1)])"
  by (simp add: getRecipeIngredients_def scenarioA_eq batter_def resolveItems_ingredient
      addToMapEntry_def)

lemma batter_B: "getRecipeIngredients scenarioB batter = Some (Val [(''egg'', double 2), (''flour'', double 1)])"
  by (simp add: getRecipeIngredients_def scenarioB_eq batter_def resolveItems_ingredient
      addToMapEntry_def)

lemma cake_B: "getRecipeIngredients scenarioB cake = Some (Val [(''egg'', double 7), (''flour'', double 3)])"
proof -
  have "ingredients scenarioB ''batter'' = None" "recipes scenarioB ''batter'' = Some batter"
    "ingredients scenarioB ''egg'' = Some egg"
    by (simp_all add: scenarioB_eq)
  moreover have "requiredItems cake =
      [\<lparr>name = ''batter'', quantity = double 3\<rparr>, \<lparr>name = ''egg'', quantity = double 1\<rparr>]"
    by (simp add: cake_def)
  ultimately show ?thesis
    by (simp add: getRecipeIngredients_def [of _ cake] resolveItems_recipe
        resolveItems_ingredient batter_B addScaled_def addToMapEntry_def number_eval)
qed

lemma cookTime_egg_flour: "cookTime egg = double 5" "cookTime flour = double 2"
  by (simp_all add: egg_def flour_def)

lemma summary_batter_A:
  "get_summary scenarioA (QueryString ''batter'') =
     Some (Send 200 (Json \<lparr>summary_name = ''batter'', summary_cookTime = double 12,
       summary_ingredients = [\<lparr>name = ''egg'', quantity = double 2\<rparr>, \<lparr>name = ''flour'', quantity = double 1\<rparr>]\<rparr>))"
proof -
  have "ingredients scenarioA ''batter'' = None" "recipes scenarioA ''batter'' = Some batter"
    "ingredients scenarioA ''egg'' = Some egg" "ingredients scenarioA ''flour'' = Some flour"
    by (simp_all add: scenarioA_eq)
  moreover have "recipe_name batter = ''batter''" by (simp add: batter_def)
  ultimately show ?thesis
    by (simp add: get_summary_def buildSummary_resolved [OF batter_A] cookTime_egg_flour
        number_eval)
qed

lemma summary_cake_B:
  "get_summary scenarioB (QueryString ''cake'') =
     Some (Send 200 (Json \<lparr>summary_name = ''cake'', summary_cookTime = double 41,
       summary_ingredients = [\<lparr>name = ''egg'', quantity = double 7\<rparr>, \<lparr>name = ''flour'', quantity = double 3\<rparr>]\<rparr>))"
proof -
  have "ingredients scenarioB ''cake'' = None" "recipes scenarioB ''cake'' = Some cake"
    "ingredients scenarioB ''egg'' = Some egg" "ingredients scenarioB ''flour'' = Some flour"
    by (simp_all add: scenarioB_eq)
  moreover have "recipe_name cake = ''cake''" by (simp add: cake_def)
  ultimately show ?thesis
    by (simp add: get_summary_def buildSummary_resolved [OF cake_B] cookTime_egg_flour
        number_eval)
qed

section \<open>Properties of the specification\<close>

text \<open>
  C10. A recipe whose \<open>requiredItems\<close> is empty resolves, in every store, to the empty
  table; its summary has the recipe's name, cook time 0 and no ingredients; and
  \<open>GET /summary\<close> for a name that the store maps to such a recipe (and to no ingredient)
  answers 200 with that summary.
\<close>

theorem empty_recipe_summary:
  assumes "requiredItems r = []"
  shows "getRecipeIngredients cb r = Some (Val [])
    \<and> buildSummary cb r =
        Some (Inr (Val \<lparr>summary_name = recipe_name r, summary_cookTime = 0,
                         summary_ingredients = []\<rparr>))
    \<and> (ingredients cb n = None \<longrightarrow> recipes cb n = Some r \<longrightarrow>
        get_summary cb (QueryString n) =
          Some (Send 200 (Json \<lparr>summary_name = recipe_name r, summary_cookTime = 0,
                                  summary_ingredients = []\<rparr>)))"
  using assms by (simp add: getRecipeIngredients_def buildSummary_def get_summary_def)

theorem empty_recipe_summary_witness:
  "requiredItems water = []
   \<and> ingredients water_cookbook ''water'' = None
   \<and> recipes water_cookbook ''water'' = Some water
   \<and> get_summary water_cookbook (QueryString ''water'') =
       Some (Send 200 (Json \<lparr>summary_name = ''water'', summary_cookTime = 0,
                               summary_ingredients = []\<rparr>))"
  using empty_recipe_summary [of water water_cookbook "''water''"]
  by (simp add: water_cookbook_eq water_def)

section \<open>Acyclic stores\<close>

lemma requires_subset: "requires cb \<subseteq> dom (recipes cb) \<times> dom (recipes cb)"
  by (auto simp: requires_def)

lemma stored_finite_tree:
  assumes fin: "finite (dom (recipes cb))" and acyc: "acyclic (requires cb)"
  shows "recipes cb n = Some r \<Longrightarrow> finite_tree cb r"
proof -
  from fin have "finite (dom (recipes cb) \<times> dom (recipes cb))" by simp
  with requires_subset have "finite (requires cb)" by (rule finite_subset)
  then have "wf (requires cb)" using acyc by (rule finite_acyclic_wf)
  then show "recipes cb n = Some r \<Longrightarrow> finite_tree cb r"
  proof (induction n arbitrary: r rule: wf_induct_rule)
    case (less n)
    show ?case
    proof (rule finite_tree_node)
      fix r' assume "r' \<in> sub_recipes cb r"
      then obtain it where it: "it \<in> set (requiredItems r)"
        "ingredients cb (name it) = None" "recipes cb (name it) = Some r'"
        by (auto simp: sub_recipes_def)
      with less.prems have "(name it, n) \<in> requires cb"
        by (auto simp: requires_def)
      then show "finite_tree cb r'" using it(3) by (rule less.IH)
    qed
  qed
qed

lemma acyclic_store_finite_tree:
  assumes "finite (dom (recipes cb))" and "acyclic (requires cb)"
  shows "finite_tree cb r"
proof (rule finite_tree_node)
  fix r' assume "r' \<in> sub_recipes cb r"
  then obtain n where "recipes cb n = Some r'" by (auto simp: sub_recipes_def)
  with assms show "finite_tree cb r'" by (rule stored_finite_tree)
qed

section \<open>Scenario E and the cyclic store\<close>

lemma sub_recipes_batter: "sub_recipes scenarioE batter = {}"
  by (auto simp: sub_recipes_def scenarioE_eq batter_def)

lemma sub_recipes_cake: "sub_recipes scenarioE cake = {batter}"
  by (auto simp: sub_recipes_def scenarioE_eq cake_def)

lemma sub_recipes_pavlova: "sub_recipes scenarioE pavlova = {cake}"
  by (auto simp: sub_recipes_def scenarioE_eq pavlova_def)

lemma finite_tree_pavlova: "finite_tree scenarioE pavlova"
proof -
  have batter: "finite_tree scenarioE batter"
    by (rule finite_tree_node) (simp add: sub_recipes_batter)
  have cake: "finite_tree scenarioE cake"
    by (rule finite_tree_node) (simp add: sub_recipes_cake batter)
  show ?thesis
    by (rule finite_tree_node) (simp add: sub_recipes_pavlova cake)
qed

lemma reaches_cream: "reaches scenarioE pavlova ''cream''"
  using reaches_item [of "\<lparr>name = ''cream'', quantity = double 2\<rparr>" pavlova scenarioE]
  by (simp add: pavlova_def)



section \<open>Properties of the specification, continued\<close>

text \<open>
  C3. If the required-item tree of a recipe is finite (no cycle below it) and some name
  in the transitive closure of its required items is in neither mapping, then
  \<open>getRecipeIngredients\<close> returns \<open>null\<close>, a value that holds no table, and
  \<open>buildSummary\<close> returns \<open>null\<close> too. And when the resolution of a sub-recipe returns
  \<open>null\<close>, the loop returns \<open>null\<close> whatever the remaining required items and the
  table built so far are: it does not look at them.
\<close>

theorem unknown_reference_fails:
  "(finite_tree cb r \<and> reaches cb r n \<and> ingredients cb n = None \<and> recipes cb n = None \<longrightarrow>
      getRecipeIngredients cb r = Some Null \<and> buildSummary cb r = Some (Inr Null))
   \<and> (ingredients cb (name it) = None \<and> recipes cb (name it) = Some sub
        \<and> getRecipeIngredients cb sub = Some Null \<longrightarrow>
      resolveItems cb (it # rest) acc = Some Null)"
proof (intro conjI impI)
  assume h: "finite_tree cb r \<and> reaches cb r n \<and> ingredients cb n = None \<and> recipes cb n = None"
  then obtain res where res: "getRecipeIngredients cb r = Some res"
    using finite_tree_returns by blast
  with h have "res = Null" using reaches_unknown_fails by blast
  with res show null: "getRecipeIngredients cb r = Some Null" by simp
  then show "buildSummary cb r = Some (Inr Null)" by (simp add: buildSummary_def)
next
  assume "ingredients cb (name it) = None \<and> recipes cb (name it) = Some sub
        \<and> getRecipeIngredients cb sub = Some Null"
  then show "resolveItems cb (it # rest) acc = Some Null"
    by (simp add: resolveItems_recipe)
qed

theorem unknown_reference_fails_witness:
  "finite_tree scenarioE pavlova \<and> reaches scenarioE pavlova ''cream''
   \<and> ingredients scenarioE ''cream'' = None \<and> recipes scenarioE ''cream'' = None
   \<and> getRecipeIngredients scenarioE pavlova = Some Null
   \<and> ingredients scenarioE ''pavlova'' = None \<and> recipes scenarioE ''pavlova'' = Some pavlova
   \<and> resolveItems scenarioE
        [\<lparr>name = ''pavlova'', quantity = double 4\<rparr>, \<lparr>name = ''egg'', quantity = double 1\<rparr>] [] = Some Null"
proof -
  have store: "ingredients scenarioE ''cream'' = None" "recipes scenarioE ''cream'' = None"
    "ingredients scenarioE ''pavlova'' = None" "recipes scenarioE ''pavlova'' = Some pavlova"
    by (simp_all add: scenarioE_eq)
  have null: "getRecipeIngredients scenarioE pavlova = Some Null"
    using unknown_reference_fails [of scenarioE pavlova "''cream''"]
      finite_tree_pavlova reaches_cream store by simp
  have "resolveItems scenarioE
        [\<lparr>name = ''pavlova'', quantity = double 4\<rparr>, \<lparr>name = ''egg'', quantity = double 1\<rparr>] [] = Some Null"
    using unknown_reference_fails [of scenarioE _ _ "\<lparr>name = ''pavlova'', quantity = double 4\<rparr>" pavlova
        "[\<lparr>name = ''egg'', quantity = double 1\<rparr>]" "[]"] store null
    by simp
  with finite_tree_pavlova reaches_cream store null show ?thesis by simp
qed








section \<open>Registration\<close>

lemma post_entry_cases:
  obtains
    (failure) msg where "post_entry cb req = (Send 400 (Text msg), cb)"
  | (recipe) r where "req = ParseSuccess (Recipe r)" "recipe_name r \<notin> names_of cb"
      "distinct (map name (requiredItems r))"
      "post_entry cb req = (Send 200 (Text ''Cookbook Entry successfully added!''),
         cb\<lparr>recipes := (recipes cb)(recipe_name r \<mapsto> r)\<rparr>)"
  | (ingredient) i where "req = ParseSuccess (Ingredient i)" "ingredient_name i \<notin> names_of cb"
      "post_entry cb req = (Send 200 (Text ''Cookbook Entry successfully added!''),
         cb\<lparr>ingredients := (ingredients cb)(ingredient_name i \<mapsto> i)\<rparr>)"
proof (cases req)
  case (ParseFailure msg)
  then show ?thesis using failure by (simp add: post_entry_def)
next
  case (ParseSuccess e)
  show ?thesis
  proof (cases "entry_name e \<in> names_of cb")
    case True
    with ParseSuccess show ?thesis using failure
      by (auto simp: post_entry_def names_of_def)
  next
    case False
    then have fresh: "ingredients cb (entry_name e) = None" "recipes cb (entry_name e) = None"
      by (auto simp: names_of_def)
    show ?thesis
    proof (cases e)
      case (Recipe r)
      show ?thesis
      proof (cases "distinct (map name (requiredItems r))")
        case True
        then have "card (set (map name (requiredItems r))) = length (map name (requiredItems r))"
          by (rule distinct_card)
        with ParseSuccess Recipe fresh False True show ?thesis
          using recipe [of r] by (simp add: post_entry_def)
      next
        case False
        then have "card (set (map name (requiredItems r))) \<noteq> length (map name (requiredItems r))"
          using card_distinct by blast
        with ParseSuccess Recipe fresh show ?thesis
          using failure by (simp add: post_entry_def)
      qed
    next
      case (Ingredient i)
      with ParseSuccess fresh False show ?thesis
        using ingredient [of i] by (simp add: post_entry_def)
    qed
  qed
qed

lemma post_entries_invariant:
  assumes "post_entries cb reqs = (ress, cb')"
    and "dom (ingredients cb) \<inter> dom (recipes cb) = {}"
  shows "dom (ingredients cb') \<inter> dom (recipes cb') = {}
    \<and> distinct (accepted_names reqs ress)
    \<and> set (accepted_names reqs ress) \<inter> names_of cb = {}
    \<and> names_of cb' = names_of cb \<union> set (accepted_names reqs ress)"
  using assms
proof (induction reqs arbitrary: cb ress)
  case Nil
  then show ?case by auto
next
  case (Cons req reqs)
  obtain res cb1 where step: "post_entry cb req = (res, cb1)" by (cases "post_entry cb req")
  obtain ress1 where run: "post_entries cb1 reqs = (ress1, cb')" and ress: "ress = res # ress1"
    using Cons.prems(1) step by (auto split: prod.splits)
  show ?case
  proof (cases rule: post_entry_cases [of cb req])
    case (failure msg)
    with step have same: "cb1 = cb" and res: "res = Send 400 (Text msg)" by simp_all
    from Cons.IH [OF run [unfolded same] Cons.prems(2)] ress res show ?thesis
      by (cases req) simp_all
  next
    case (recipe r)
    with step have cb1: "cb1 = cb\<lparr>recipes := (recipes cb)(recipe_name r \<mapsto> r)\<rparr>"
      and res: "res = Send 200 (Text ''Cookbook Entry successfully added!'')" by simp_all
    from cb1 recipe(2) Cons.prems(2) have disj: "dom (ingredients cb1) \<inter> dom (recipes cb1) = {}"
      by (auto simp: names_of_def)
    from cb1 have names: "names_of cb1 = insert (recipe_name r) (names_of cb)"
      by (auto simp: names_of_def)
    from Cons.IH [OF run disj] ress res recipe(1,2) names show ?thesis
      by auto
  next
    case (ingredient i)
    with step have cb1: "cb1 = cb\<lparr>ingredients := (ingredients cb)(ingredient_name i \<mapsto> i)\<rparr>"
      and res: "res = Send 200 (Text ''Cookbook Entry successfully added!'')" by simp_all
    from cb1 ingredient(2) Cons.prems(2) have disj: "dom (ingredients cb1) \<inter> dom (recipes cb1) = {}"
      by (auto simp: names_of_def)
    from cb1 have names: "names_of cb1 = insert (ingredient_name i) (names_of cb)"
      by (auto simp: names_of_def)
    from Cons.IH [OF run disj] ress res ingredient(1,2) names show ?thesis
      by auto
  qed
qed

text \<open>
  C4. Run any sequence of \<open>POST /entry\<close> requests from the empty store. Afterwards no name
  is a key of both mappings, the names of the accepted entries are pairwise different,
  and they are exactly the keys of the two mappings. And in any store, an entry whose
  name is a key of either mapping is refused with the duplicate-name message and the
  store stays as it was.
\<close>

theorem registration_unique_names:
  "(case post_entries empty_cookbook reqs of
      (ress, cb) \<Rightarrow>
        dom (ingredients cb) \<inter> dom (recipes cb) = {}
        \<and> distinct (accepted_names reqs ress)
        \<and> dom (ingredients cb) \<union> dom (recipes cb) = set (accepted_names reqs ress))
   \<and> (ingredients cb0 (entry_name e) \<noteq> None \<or> recipes cb0 (entry_name e) \<noteq> None \<longrightarrow>
        post_entry cb0 (ParseSuccess e) =
          (Send 400 (Text ''An existing entry with the same name already exist.''), cb0))"
proof
  obtain ress cb where run: "post_entries empty_cookbook reqs = (ress, cb)"
    by (cases "post_entries empty_cookbook reqs")
  have "dom (ingredients empty_cookbook) \<inter> dom (recipes empty_cookbook) = {}"
    by (simp add: empty_cookbook_def)
  from post_entries_invariant [OF run this]
  have "dom (ingredients cb) \<inter> dom (recipes cb) = {}
        \<and> distinct (accepted_names reqs ress)
        \<and> dom (ingredients cb) \<union> dom (recipes cb) = set (accepted_names reqs ress)"
    by (simp add: names_of_def empty_cookbook_def)
  then show "case post_entries empty_cookbook reqs of
      (ress, cb) \<Rightarrow>
        dom (ingredients cb) \<inter> dom (recipes cb) = {}
        \<and> distinct (accepted_names reqs ress)
        \<and> dom (ingredients cb) \<union> dom (recipes cb) = set (accepted_names reqs ress)"
    by (simp add: run)
next
  show "ingredients cb0 (entry_name e) \<noteq> None \<or> recipes cb0 (entry_name e) \<noteq> None \<longrightarrow>
        post_entry cb0 (ParseSuccess e) =
          (Send 400 (Text ''An existing entry with the same name already exist.''), cb0)"
    by (simp add: post_entry_def)
qed

theorem registration_unique_names_witness:
  "post_entries empty_cookbook (scenarioA_requests @ [ParseSuccess (Recipe egg_again)]) =
     ([Send 200 (Text ''Cookbook Entry successfully added!''),
       Send 200 (Text ''Cookbook Entry successfully added!''),
       Send 200 (Text ''Cookbook Entry successfully added!''),
       Send 400 (Text ''An existing entry with the same name already exist.'')], scenarioA)
   \<and> dom (ingredients scenarioA) \<inter> dom (recipes scenarioA) = {}
   \<and> dom (ingredients scenarioA) \<union> dom (recipes scenarioA) = {''egg'', ''flour'', ''batter''}
   \<and> ingredients scenarioA (entry_name (Recipe egg_again)) \<noteq> None
   \<and> post_entry scenarioA (ParseSuccess (Recipe egg_again)) =
       (Send 400 (Text ''An existing entry with the same name already exist.''), scenarioA)"
proof -
  have run: "post_entries empty_cookbook (scenarioA_requests @ [ParseSuccess (Recipe egg_again)]) =
     ([Send 200 (Text ''Cookbook Entry successfully added!''),
       Send 200 (Text ''Cookbook Entry successfully added!''),
       Send 200 (Text ''Cookbook Entry successfully added!''),
       Send 400 (Text ''An existing entry with the same name already exist.'')], scenarioA)"
    by (simp add: scenarioA_eq scenarioA_requests_def post_entry_def empty_cookbook_def
        egg_def flour_def batter_def egg_again_def)
  have known: "ingredients scenarioA (entry_name (Recipe egg_again)) \<noteq> None"
    by (simp add: scenarioA_eq egg_again_def)
  have names: "accepted_names (scenarioA_requests @ [ParseSuccess (Recipe egg_again)])
     [Send 200 (Text ''Cookbook Entry successfully added!''),
       Send 200 (Text ''Cookbook Entry successfully added!''),
       Send 200 (Text ''Cookbook Entry successfully added!''),
       Send 400 (Text ''An existing entry with the same name already exist.'')]
     = [''egg'', ''flour'', ''batter'']"
    by (simp add: scenarioA_requests_def egg_def flour_def batter_def)
  from registration_unique_names
    [of "scenarioA_requests @ [ParseSuccess (Recipe egg_again)]" scenarioA "Recipe egg_again"]
  show ?thesis
    using run known names by auto
qed

text \<open>
  C5. Registering a recipe whose \<open>requiredItems\<close> has two entries with the same name is
  refused with status 400 and the store stays as it was; when the recipe's name is new,
  the refusal is the duplicate-required-item message. Every request that is not
  answered with status 200 leaves the store as it was, and a request answered with 200
  has put exactly the entry under its name into the mapping of its kind.
\<close>

theorem duplicate_required_items_rejected:
  "(\<not> distinct (map name (requiredItems r)) \<longrightarrow>
      (\<exists>msg. post_entry cb (ParseSuccess (Recipe r)) = (Send 400 (Text msg), cb))
      \<and> (ingredients cb (recipe_name r) = None \<and> recipes cb (recipe_name r) = None \<longrightarrow>
          post_entry cb (ParseSuccess (Recipe r)) =
            (Send 400 (Text ''Required items cannot have multiple elements with the same name.''),
             cb)))
   \<and> (fst (post_entry cb req) \<noteq> Send 200 (Text ''Cookbook Entry successfully added!'') \<longrightarrow>
        snd (post_entry cb req) = cb)
   \<and> (fst (post_entry cb req) = Send 200 (Text ''Cookbook Entry successfully added!'') \<longrightarrow>
        (\<exists>e. req = ParseSuccess e \<and> entry_name e \<notin> names_of cb
           \<and> snd (post_entry cb req) =
               (case e of
                  Recipe r' \<Rightarrow> cb\<lparr>recipes := (recipes cb)(recipe_name r' \<mapsto> r')\<rparr>
                | Ingredient i \<Rightarrow> cb\<lparr>ingredients := (ingredients cb)(ingredient_name i \<mapsto> i)\<rparr>)))"
proof (intro conjI impI)
  assume dup: "\<not> distinct (map name (requiredItems r))"
  then have ne: "card (set (map name (requiredItems r))) \<noteq> length (map name (requiredItems r))"
    using card_distinct by blast
  then show "\<exists>msg. post_entry cb (ParseSuccess (Recipe r)) = (Send 400 (Text msg), cb)"
    by (simp add: post_entry_def)
  assume "ingredients cb (recipe_name r) = None \<and> recipes cb (recipe_name r) = None"
  with ne show "post_entry cb (ParseSuccess (Recipe r)) =
            (Send 400 (Text ''Required items cannot have multiple elements with the same name.''),
             cb)"
    by (simp add: post_entry_def)
next
  assume "fst (post_entry cb req) \<noteq> Send 200 (Text ''Cookbook Entry successfully added!'')"
  then show "snd (post_entry cb req) = cb"
    by (cases rule: post_entry_cases [of cb req]) simp_all
next
  assume "fst (post_entry cb req) = Send 200 (Text ''Cookbook Entry successfully added!'')"
  then show "\<exists>e. req = ParseSuccess e \<and> entry_name e \<notin> names_of cb
           \<and> snd (post_entry cb req) =
               (case e of
                  Recipe r' \<Rightarrow> cb\<lparr>recipes := (recipes cb)(recipe_name r' \<mapsto> r')\<rparr>
                | Ingredient i \<Rightarrow> cb\<lparr>ingredients := (ingredients cb)(ingredient_name i \<mapsto> i)\<rparr>)"
    by (cases rule: post_entry_cases [of cb req]) simp_all
qed

theorem duplicate_required_items_rejected_witness:
  "\<not> distinct (map name (requiredItems double_egg))
   \<and> ingredients scenarioA (recipe_name double_egg) = None
   \<and> recipes scenarioA (recipe_name double_egg) = None
   \<and> post_entry scenarioA (ParseSuccess (Recipe double_egg)) =
       (Send 400 (Text ''Required items cannot have multiple elements with the same name.''),
        scenarioA)
   \<and> fst (post_entry scenarioA (ParseSuccess (Recipe cake))) =
       Send 200 (Text ''Cookbook Entry successfully added!'')
   \<and> snd (post_entry scenarioA (ParseSuccess (Recipe cake))) =
       scenarioA\<lparr>recipes := (recipes scenarioA)(''cake'' \<mapsto> cake)\<rparr>"
proof -
  have dup: "\<not> distinct (map name (requiredItems double_egg))"
    by (simp add: double_egg_def)
  have fresh: "ingredients scenarioA (recipe_name double_egg) = None"
    "recipes scenarioA (recipe_name double_egg) = None"
    by (simp_all add: scenarioA_eq double_egg_def)
  have ok: "fst (post_entry scenarioA (ParseSuccess (Recipe cake))) =
       Send 200 (Text ''Cookbook Entry successfully added!'')"
    by (simp add: post_entry_def scenarioA_eq cake_def)
  have name: "recipe_name cake = ''cake''" by (simp add: cake_def)
  from duplicate_required_items_rejected [of double_egg scenarioA]
    duplicate_required_items_rejected [of _ scenarioA "ParseSuccess (Recipe cake)"]
  show ?thesis using dup fresh ok name by auto
qed



text \<open>
  A finite tree is sufficient for an answer, not necessary: the recipe \<open>loop\<close> requires
  the unknown \<open>ghost\<close> before itself, and the handler answers at \<open>ghost\<close>.
\<close>

lemma summary_of_ghost_loop:
  "get_summary ghost_loop_cookbook (QueryString ''loop'') = Some unresolvable_response"
proof -
  have store: "ingredients ghost_loop_cookbook ''loop'' = None"
    "recipes ghost_loop_cookbook ''loop'' = Some ghost_loop"
    "ingredients ghost_loop_cookbook ''ghost'' = None"
    "recipes ghost_loop_cookbook ''ghost'' = None"
    by (simp_all add: ghost_loop_cookbook_def post_entry_def empty_cookbook_def ghost_loop_def)
  have "requiredItems ghost_loop =
      [\<lparr>name = ''ghost'', quantity = double 1\<rparr>, \<lparr>name = ''loop'', quantity = double 1\<rparr>]"
    by (simp add: ghost_loop_def)
  with store have "getRecipeIngredients ghost_loop_cookbook ghost_loop = Some Null"
    by (simp add: getRecipeIngredients_def resolveItems_unknown)
  with store show ?thesis
    by (simp add: get_summary_def buildSummary_def unresolvable_response_def)
qed

section \<open>Properties of the resolved numbers\<close>

text \<open>
  C6. When resolution of a recipe succeeds, every name in the resolved table is a key of
  the store's ingredient mapping; so the lookup in \<open>buildSummary\<close> never throws, and
  \<open>buildSummary\<close> returns the summary whose cook time is the sum, taken over the entries
  of the table in its order and starting from 0, of the cook time of the ingredient
  times the accumulated quantity, in the arithmetic of numbers, and whose ingredients
  are the entries of the table in its order.
\<close>

theorem resolved_names_are_ingredients:
  assumes "getRecipeIngredients cb r = Some (Val tbl)"
  shows "(\<forall>k \<in> fst ` set tbl. \<exists>ing. ingredients cb k = Some ing)
    \<and> buildSummary cb r =
        Some (Inr (Val \<lparr>summary_name = recipe_name r,
          summary_cookTime =
            foldl (\<lambda>total (k, q). total + cookTime (the (ingredients cb k)) * q) 0 tbl,
          summary_ingredients = map (\<lambda>(k, q). \<lparr>name = k, quantity = q\<rparr>) tbl\<rparr>))"
proof
  from assms have "fst ` set tbl \<subseteq> dom (ingredients cb)" by (rule resolved_keys)
  then show "\<forall>k \<in> fst ` set tbl. \<exists>ing. ingredients cb k = Some ing" by blast
next
  from assms show "buildSummary cb r =
        Some (Inr (Val \<lparr>summary_name = recipe_name r,
          summary_cookTime =
            foldl (\<lambda>total (k, q). total + cookTime (the (ingredients cb k)) * q) 0 tbl,
          summary_ingredients = map (\<lambda>(k, q). \<lparr>name = k, quantity = q\<rparr>) tbl\<rparr>))"
    by (rule buildSummary_resolved)
qed

section \<open>Quantities at the edge of the doubles\<close>

lemma huge_doubled: "huge * double 2 = PosInfinity"
  unfolding huge_def by (rule double_overflow_product)

lemma ge0_huge: "ge0 huge"
  unfolding huge_def by (rule ge0_double) simp

lemma valueOf_huge: "valueOf huge = Some (2 ^ 1023)"
  unfolding huge_def by (rule valueOf_double) (rule two_1023_representable)

lemma ocean_cookbook_eq:
  "ocean_cookbook =
     \<lparr>recipes = [''brine'' \<mapsto> brine, ''sea'' \<mapsto> sea, ''ocean'' \<mapsto> ocean],
      ingredients = [''salt'' \<mapsto> salt]\<rparr>"
  by (simp add: ocean_cookbook_def post_entry_def empty_cookbook_def salt_def brine_def
      sea_def ocean_def)

lemma ocean_store:
  "ingredients ocean_cookbook ''salt'' = Some salt"
  "ingredients ocean_cookbook ''brine'' = None" "recipes ocean_cookbook ''brine'' = Some brine"
  "ingredients ocean_cookbook ''sea'' = None" "recipes ocean_cookbook ''sea'' = Some sea"
  "ingredients ocean_cookbook ''ocean'' = None" "recipes ocean_cookbook ''ocean'' = Some ocean"
  by (simp_all add: ocean_cookbook_eq)

lemma brine_resolved:
  "getRecipeIngredients ocean_cookbook brine = Some (Val [(''salt'', huge)])"
proof -
  have "requiredItems brine = [\<lparr>name = ''salt'', quantity = huge\<rparr>]"
    by (simp add: brine_def)
  then show ?thesis
    by (simp add: getRecipeIngredients_def resolveItems_ingredient ocean_store
        addToMapEntry_def)
qed

lemma sea_resolved:
  "getRecipeIngredients ocean_cookbook sea = Some (Val [(''salt'', PosInfinity)])"
proof -
  have "requiredItems sea = [\<lparr>name = ''brine'', quantity = double 2\<rparr>]"
    by (simp add: sea_def)
  then show ?thesis
    by (simp add: getRecipeIngredients_def [of _ sea] resolveItems_recipe ocean_store
        brine_resolved addScaled_def addToMapEntry_def huge_doubled)
qed

lemma ocean_resolved:
  "getRecipeIngredients ocean_cookbook ocean = Some (Val [(''salt'', NaN)])"
proof -
  have "requiredItems ocean = [\<lparr>name = ''sea'', quantity = double 0\<rparr>]"
    by (simp add: ocean_def)
  then show ?thesis
    by (simp add: getRecipeIngredients_def [of _ ocean] resolveItems_recipe ocean_store
        sea_resolved addScaled_def addToMapEntry_def double_0 infinity_times_zero)
qed

lemma store_nonneg_ocean: "store_nonneg ocean_cookbook"
proof -
  have "ge0 (double 0)" "ge0 (double 2)" "ge0 huge"
    by (simp_all add: ge0_double ge0_huge)
  then show ?thesis
    by (simp add: store_nonneg_def ocean_cookbook_eq salt_def brine_def sea_def ocean_def)
qed


lemma sea_summary:
  "buildSummary ocean_cookbook sea =
     Some (Inr (Val \<lparr>summary_name = ''sea'', summary_cookTime = NaN,
       summary_ingredients = [\<lparr>name = ''salt'', quantity = PosInfinity\<rparr>]\<rparr>))"
proof -
  have "recipe_name sea = ''sea''" "cookTime salt = 0"
    by (simp_all add: sea_def salt_def double_0)
  then show ?thesis
    by (simp add: buildSummary_resolved [OF sea_resolved] ocean_store infinity_times_zero)
qed

lemma ocean_summary:
  "buildSummary ocean_cookbook ocean =
     Some (Inr (Val \<lparr>summary_name = ''ocean'', summary_cookTime = NaN,
       summary_ingredients = [\<lparr>name = ''salt'', quantity = NaN\<rparr>]\<rparr>))"
proof -
  have "recipe_name ocean = ''ocean''" "cookTime salt = 0"
    by (simp_all add: ocean_def salt_def double_0)
  then show ?thesis
    by (simp add: buildSummary_resolved [OF ocean_resolved] ocean_store zero_number_Finite)
qed

lemma cake_summary:
  "buildSummary scenarioB cake =
     Some (Inr (Val \<lparr>summary_name = ''cake'', summary_cookTime = double 41,
       summary_ingredients =
         [\<lparr>name = ''egg'', quantity = double 7\<rparr>, \<lparr>name = ''flour'', quantity = double 3\<rparr>]\<rparr>))"
proof -
  have "ingredients scenarioB ''egg'' = Some egg" "ingredients scenarioB ''flour'' = Some flour"
    "recipe_name cake = ''cake''"
    by (simp_all add: scenarioB_eq cake_def)
  then show ?thesis
    by (simp add: buildSummary_resolved [OF cake_B] cookTime_egg_flour number_eval)
qed

theorem resolved_names_are_ingredients_witness:
  "getRecipeIngredients scenarioB cake = Some (Val [(''egg'', double 7), (''flour'', double 3)])
   \<and> ingredients scenarioB ''egg'' = Some egg \<and> ingredients scenarioB ''flour'' = Some flour
   \<and> buildSummary scenarioB cake =
       Some (Inr (Val \<lparr>summary_name = ''cake'', summary_cookTime = double 41,
         summary_ingredients =
           [\<lparr>name = ''egg'', quantity = double 7\<rparr>, \<lparr>name = ''flour'', quantity = double 3\<rparr>]\<rparr>))
   \<and> getRecipeIngredients ocean_cookbook sea = Some (Val [(''salt'', PosInfinity)])
   \<and> ingredients ocean_cookbook ''salt'' = Some salt
   \<and> buildSummary ocean_cookbook sea =
       Some (Inr (Val \<lparr>summary_name = ''sea'', summary_cookTime = NaN,
         summary_ingredients = [\<lparr>name = ''salt'', quantity = PosInfinity\<rparr>]\<rparr>))"
proof -
  have ing: "ingredients scenarioB ''egg'' = Some egg" "ingredients scenarioB ''flour'' = Some flour"
    by (simp_all add: scenarioB_eq)
  from resolved_names_are_ingredients [OF cake_B] resolved_names_are_ingredients [OF sea_resolved]
  show ?thesis
    using ing cake_B sea_resolved cake_summary sea_summary ocean_store(1) by simp
qed

lemma cookTime_sum_nonneg:
  assumes "\<forall>(k, q) \<in> set t. nonneg_or_NaN q \<and> nonneg_or_NaN (cookTime (the (ingredients cb k)))"
    and "nonneg_or_NaN start"
  shows "nonneg_or_NaN
    (foldl (\<lambda>total (k, q). total + cookTime (the (ingredients cb k)) * q) start t)"
  using assms
proof (induction t arbitrary: start)
  case Nil
  then show ?case by simp
next
  case (Cons kq t)
  obtain k q where kq: "kq = (k, q)" by (cases kq)
  with Cons.prems have "nonneg_or_NaN (start + cookTime (the (ingredients cb k)) * q)"
    by (simp add: nonneg_or_NaN_add nonneg_or_NaN_mult)
  moreover from Cons.prems(1)
  have "\<forall>(k, q) \<in> set t. nonneg_or_NaN q \<and> nonneg_or_NaN (cookTime (the (ingredients cb k)))"
    by simp
  ultimately show ?case using Cons.IH by (simp add: kq)
qed

text \<open>
  C8, as the code has it. In a store whose stored required-item quantities and cook
  times all satisfy \<open>>= 0\<close>, no quantity in the table that a stored recipe resolves to is
  a negative number, and neither is the cook time of its summary: each is a number that
  satisfies \<open>>= 0\<close> (\<open>Infinity\<close> is one) or is \<open>NaN\<close>.
\<close>

theorem resolved_quantities_not_negative:
  assumes "store_nonneg cb" and "recipes cb n = Some r"
    and "getRecipeIngredients cb r = Some (Val tbl)"
  shows "(\<forall>(k, q) \<in> set tbl. nonneg_or_NaN q)
    \<and> (\<exists>s. buildSummary cb r = Some (Inr (Val s)) \<and> nonneg_or_NaN (summary_cookTime s)
          \<and> (\<forall>it \<in> set (summary_ingredients s). nonneg_or_NaN (quantity it)))"
proof -
  from assms(1,2) have items: "\<forall>it \<in> set (requiredItems r). ge0 (quantity it)"
    unfolding store_nonneg_def by blast
  from assms(3) have "resolves cb (requiredItems r) [] (Val tbl)"
    by (simp add: getRecipeIngredients_iff)
  then have "\<forall>v \<in> snd ` set tbl. nonneg_or_NaN v"
    using assms(1) items by (rule resolves_nonneg [OF _ refl]) simp
  then have q: "\<forall>(k, q) \<in> set tbl. nonneg_or_NaN q" by force
  from assms(3) have keys: "fst ` set tbl \<subseteq> dom (ingredients cb)" by (rule resolved_keys)
  have "nonneg_or_NaN (cookTime (the (ingredients cb k)))" if "(k, q) \<in> set tbl" for k q
  proof -
    from that keys obtain ing where ing: "ingredients cb k = Some ing" by force
    with assms(1) have "ge0 (cookTime ing)" unfolding store_nonneg_def by blast
    then show ?thesis by (simp add: ing nonneg_or_NaN_def)
  qed
  with q have "\<forall>(k, q) \<in> set tbl.
      nonneg_or_NaN q \<and> nonneg_or_NaN (cookTime (the (ingredients cb k)))"
    by blast
  then have "nonneg_or_NaN
      (foldl (\<lambda>total (k, q). total + cookTime (the (ingredients cb k)) * q) 0 tbl)"
    by (rule cookTime_sum_nonneg) simp
  with q show ?thesis
    by (auto simp: buildSummary_resolved [OF assms(3)])
qed

lemma store_nonneg_scenarioB: "store_nonneg scenarioB"
proof -
  have "ge0 (double 1)" "ge0 (double 2)" "ge0 (double 3)" "ge0 (double 5)"
    by (simp_all add: ge0_double)
  then show ?thesis
    by (simp add: store_nonneg_def scenarioB_eq egg_def flour_def batter_def cake_def)
qed

theorem resolved_quantities_not_negative_witness:
  "store_nonneg scenarioB \<and> recipes scenarioB ''cake'' = Some cake
   \<and> getRecipeIngredients scenarioB cake = Some (Val [(''egg'', double 7), (''flour'', double 3)])
   \<and> nonneg_or_NaN (double 7) \<and> nonneg_or_NaN (double 3) \<and> nonneg_or_NaN (double 41)
   \<and> store_nonneg ocean_cookbook \<and> recipes ocean_cookbook ''ocean'' = Some ocean
   \<and> getRecipeIngredients ocean_cookbook ocean = Some (Val [(''salt'', NaN)])
   \<and> nonneg_or_NaN NaN"
proof -
  have stored: "recipes scenarioB ''cake'' = Some cake" by (simp add: scenarioB_eq)
  from resolved_quantities_not_negative [OF store_nonneg_scenarioB stored cake_B]
  have "nonneg_or_NaN (double 7)" "nonneg_or_NaN (double 3)" "nonneg_or_NaN (double 41)"
    by (simp_all add: cake_summary)
  moreover
  from resolved_quantities_not_negative [OF store_nonneg_ocean ocean_store(7) ocean_resolved]
  have "nonneg_or_NaN NaN" by simp
  ultimately show ?thesis
    using store_nonneg_scenarioB stored cake_B store_nonneg_ocean ocean_store(7) ocean_resolved
    by simp
qed

text \<open>
  Every number stored in \<open>ocean_cookbook\<close> is finite and satisfies \<open>>= 0\<close>, and the recipe
  \<open>ocean\<close> resolves to the quantity \<open>NaN\<close>, which does not satisfy \<open>>= 0\<close>; the cook time
  of its summary is \<open>NaN\<close> too.
\<close>

theorem resolved_quantity_NaN:
  "store_nonneg ocean_cookbook
   \<and> valueOf huge = Some (2 ^ 1023) \<and> valueOf (double 2) = Some 2 \<and> valueOf (double 0) = Some 0
   \<and> recipes ocean_cookbook ''ocean'' = Some ocean
   \<and> getRecipeIngredients ocean_cookbook ocean = Some (Val [(''salt'', NaN)])
   \<and> buildSummary ocean_cookbook ocean =
       Some (Inr (Val \<lparr>summary_name = ''ocean'', summary_cookTime = NaN,
         summary_ingredients = [\<lparr>name = ''salt'', quantity = NaN\<rparr>]\<rparr>))
   \<and> \<not> ge0 NaN"
  using store_nonneg_ocean valueOf_huge ocean_store(7) ocean_resolved ocean_summary
  by (simp add: valueOf_double integer_representable)

section \<open>Contributions in any order and splitting the loop\<close>

lemma accumulate_None [simp]: "accumulate entry None = entry"
  by (simp add: accumulate_def)

lemma foldl_accumulate_filter:
  "foldl accumulate entry cs = foldl accumulate entry (filter (\<lambda>c. c \<noteq> None) cs)"
  by (induction cs arbitrary: entry) simp_all

lemma two_element_list:
  assumes "mset xs = {#u, v#}"
  shows "xs = [u, v] \<or> xs = [v, u]"
proof -
  from assms have "size (mset xs) = 2" by simp
  then have "length xs = 2" by simp
  then obtain p q where xs: "xs = [p, q]"
    by (metis One_nat_def Suc_1 length_0_conv length_Suc_conv)
  with assms have "{#p, q#} = {#u, v#}" by simp
  then have "(p = u \<and> q = v) \<or> (p = v \<and> q = u)"
    by (auto simp: add_eq_conv_ex)
  with xs show ?thesis by auto
qed

lemma one_element_list:
  assumes "mset xs = {#u#}"
  shows "xs = [u]"
  using assms by (simp add: mset_single_iff_right)

lemma touching_contributions:
  assumes "mset items = M + mset others" and "\<forall>it \<in> set others. contribution cb x it = None"
  shows "mset (filter (\<lambda>c. c \<noteq> None) (map (contribution cb x) items)) =
    filter_mset (\<lambda>c. c \<noteq> None) (image_mset (contribution cb x) M)"
proof -
  have "mset (filter (\<lambda>c. c \<noteq> None) (map (contribution cb x) items)) =
      filter_mset (\<lambda>c. c \<noteq> None) (image_mset (contribution cb x) (mset items))"
    by simp
  also have "\<dots> = filter_mset (\<lambda>c. c \<noteq> None) (image_mset (contribution cb x) M)
      + filter_mset (\<lambda>c. c \<noteq> None) (image_mset (contribution cb x) (mset others))"
    by (simp add: assms(1))
  also have "filter_mset (\<lambda>c. c \<noteq> None) (image_mset (contribution cb x) (mset others)) = {#}"
    using assms(2) by (auto simp: filter_mset_eq_mempty_iff)
  finally show ?thesis by simp
qed

lemma resolves_append:
  "resolveItems cb (pre @ rest) acc = Some (Val tbl) \<Longrightarrow>
   \<exists>mid. resolveItems cb pre acc = Some (Val mid) \<and> resolveItems cb rest mid = Some (Val tbl)"
proof (induction pre arbitrary: acc)
  case Nil
  then show ?case by simp
next
  case (Cons it pre)
  show ?case
  proof (cases "ingredients cb (name it)")
    case (Some ing)
    with Cons.prems have "resolveItems cb (pre @ rest) (addToMapEntry (name it) (quantity it) acc)
        = Some (Val tbl)"
      by (simp add: resolveItems_ingredient)
    from Cons.IH [OF this] Some show ?thesis
      by (simp add: resolveItems_ingredient)
  next
    case None
    note ing = this
    show ?thesis
    proof (cases "recipes cb (name it)")
      case None
      with Cons.prems ing show ?thesis by (simp add: resolveItems_unknown)
    next
      case (Some r)
      show ?thesis
      proof (cases "getRecipeIngredients cb r")
        case None
        with Cons.prems ing Some show ?thesis by (simp add: resolveItems_recipe)
      next
        case inner: (Some res)
        show ?thesis
        proof (cases res)
          case Null
          with Cons.prems ing Some inner show ?thesis by (simp add: resolveItems_recipe)
        next
          case (Val t)
          with Cons.prems ing Some inner
          have "resolveItems cb (pre @ rest) (addScaled (quantity it) t acc) = Some (Val tbl)"
            by (simp add: resolveItems_recipe)
          from Cons.IH [OF this] ing Some inner Val show ?thesis
            by (simp add: resolveItems_recipe)
        qed
      qed
    qed
  qed
qed


text \<open>
  C1. When resolution of a recipe succeeds, the entry of every name in the resolved
  table is what the contributions of the recipe's required items add up to, taken in
  the order of the items and starting from 0, where an item that names a sub-recipe
  contributes the sub-recipe's resolved quantity times the item's own quantity:
  contributions add, none overwrites another. In particular, if the recipe requires the
  ingredient \<open>x\<close> directly with quantity \<open>a\<close> and the sub-recipe \<open>s\<close> with quantity \<open>b\<close>, \<open>s\<close>
  requires \<open>x\<close> with quantity \<open>c\<close>, and no other required item of the recipe or of \<open>s\<close>
  touches \<open>x\<close>, then the table maps \<open>x\<close> to \<open>a + b * c\<close>, with \<open>+\<close> and \<open>*\<close> those of the
  numbers. The required items may stand in any order.
\<close>

theorem additivity:
  assumes "getRecipeIngredients cb r = Some (Val tbl)"
  shows "map_of tbl y = foldl accumulate None (map (contribution cb y) (requiredItems r))
    \<and> (ingredients cb x = Some ing \<and> ingredients cb s = None \<and> recipes cb s = Some sub
        \<and> mset (requiredItems r) =
            {#\<lparr>name = x, quantity = a\<rparr>, \<lparr>name = s, quantity = b\<rparr>#} + mset others
        \<and> (\<forall>it \<in> set others. contribution cb x it = None)
        \<and> mset (requiredItems sub) = {#\<lparr>name = x, quantity = c\<rparr>#} + mset others'
        \<and> (\<forall>it \<in> set others'. contribution cb x it = None)
        \<longrightarrow> map_of tbl x = Some (a + b * c))"
proof (intro conjI impI)
  from assms show "map_of tbl y = foldl accumulate None (map (contribution cb y) (requiredItems r))"
    by (rule resolved_entry)
next
  assume h: "ingredients cb x = Some ing \<and> ingredients cb s = None \<and> recipes cb s = Some sub
        \<and> mset (requiredItems r) =
            {#\<lparr>name = x, quantity = a\<rparr>, \<lparr>name = s, quantity = b\<rparr>#} + mset others
        \<and> (\<forall>it \<in> set others. contribution cb x it = None)
        \<and> mset (requiredItems sub) = {#\<lparr>name = x, quantity = c\<rparr>#} + mset others'
        \<and> (\<forall>it \<in> set others'. contribution cb x it = None)"
  let ?direct = "\<lparr>name = x, quantity = a\<rparr>" and ?subitem = "\<lparr>name = s, quantity = b\<rparr>"
  let ?inner = "\<lparr>name = x, quantity = c\<rparr>"
  from h have items: "mset (requiredItems r) = {#?direct, ?subitem#} + mset others"
    and others: "\<forall>it \<in> set others. contribution cb x it = None"
    and sub_items: "mset (requiredItems sub) = {#?inner#} + mset others'"
    and others': "\<forall>it \<in> set others'. contribution cb x it = None"
    by simp_all
  from items have "set_mset (mset (requiredItems r)) = set_mset ({#?direct, ?subitem#} + mset others)"
    by simp
  then have mem: "?subitem \<in> set (requiredItems r)" by auto
  from assms have run: "resolves cb (requiredItems r) [] (Val tbl)"
    by (simp add: getRecipeIngredients_iff)
  from resolves_sub_success [OF run refl mem] h obtain t
    where "resolves cb (requiredItems sub) [] (Val t)" by auto
  then have sub: "getRecipeIngredients cb sub = Some (Val t)"
    by (simp add: getRecipeIngredients_iff)
  have direct: "contribution cb x ?direct = Some a" and inner: "contribution cb x ?inner = Some c"
    using h by (simp_all add: contribution_def)
  text \<open>The sub-recipe's table maps \<open>x\<close> to \<open>c\<close>.\<close>
  have "mset (filter (\<lambda>c. c \<noteq> None) (map (contribution cb x) (requiredItems sub))) = {#Some c#}"
    using touching_contributions [OF sub_items others'] inner by simp
  then have "filter (\<lambda>c. c \<noteq> None) (map (contribution cb x) (requiredItems sub)) = [Some c]"
    by (rule one_element_list)
  then have "foldl accumulate None (map (contribution cb x) (requiredItems sub)) =
      foldl accumulate None [Some c]"
    by (subst foldl_accumulate_filter) simp
  then have t_x: "map_of t x = Some c"
    by (simp add: resolved_entry [OF sub] accumulate_def)
  with sub h have subc: "contribution cb x ?subitem = Some (c * b)"
    by (simp add: contribution_def)
  text \<open>The recipe's table: the two contributions in either order.\<close>
  have "mset (filter (\<lambda>c. c \<noteq> None) (map (contribution cb x) (requiredItems r))) =
      {#Some a, Some (c * b)#}"
    using touching_contributions [OF items others] direct subc by simp
  then have "filter (\<lambda>c. c \<noteq> None) (map (contribution cb x) (requiredItems r)) =
      [Some a, Some (c * b)]
    \<or> filter (\<lambda>c. c \<noteq> None) (map (contribution cb x) (requiredItems r)) =
      [Some (c * b), Some a]"
    by (rule two_element_list)
  then have "foldl accumulate None (map (contribution cb x) (requiredItems r)) = Some (a + c * b)
    \<or> foldl accumulate None (map (contribution cb x) (requiredItems r)) = Some (c * b + a)"
    by (subst (1 2) foldl_accumulate_filter) (auto simp: accumulate_def)
  then have "map_of tbl x = Some (a + c * b) \<or> map_of tbl x = Some (c * b + a)"
    by (simp add: resolved_entry [OF assms])
  then show "map_of tbl x = Some (a + b * c)"
    by (auto simp: number_add_commute [of "b * c" a] number_mult_commute [of c b])
qed


lemma custard_cookbook_eq:
  "custard_cookbook =
     \<lparr>recipes = [''yolk'' \<mapsto> yolk, ''custard'' \<mapsto> custard],
      ingredients = [''egg'' \<mapsto> egg]\<rparr>"
  by (simp add: custard_cookbook_def post_entry_def empty_cookbook_def egg_def yolk_def
      custard_def)

lemma custard_store:
  "ingredients custard_cookbook ''egg'' = Some egg"
  "ingredients custard_cookbook ''yolk'' = None" "recipes custard_cookbook ''yolk'' = Some yolk"
  by (simp_all add: custard_cookbook_eq)

lemma yolk_resolved:
  "getRecipeIngredients custard_cookbook yolk = Some (Val [(''egg'', double 1)])"
proof -
  have "requiredItems yolk = [\<lparr>name = ''egg'', quantity = double 1\<rparr>]"
    by (simp add: yolk_def)
  then show ?thesis
    by (simp add: getRecipeIngredients_def resolveItems_ingredient custard_store
        addToMapEntry_def)
qed

lemma custard_items:
  "requiredItems custard = [\<lparr>name = ''egg'', quantity = double 9007199254740992\<rparr>,
                            \<lparr>name = ''yolk'', quantity = double 1\<rparr>]"
  by (simp add: custard_def)

lemma custard_resolved:
  "getRecipeIngredients custard_cookbook custard =
     Some (Val [(''egg'', double 9007199254740992)])"
proof -
  have "double 1 * double 1 = double 1"
    by (simp add: double_mult integer_representable)
  then show ?thesis
    by (simp add: getRecipeIngredients_def [of _ custard] custard_items resolveItems_recipe
        resolveItems_ingredient custard_store yolk_resolved addScaled_def addToMapEntry_def
        double_two_53_plus_1)
qed

lemma scenarioB_store:
  "ingredients scenarioB ''egg'' = Some egg" "ingredients scenarioB ''flour'' = Some flour"
  "ingredients scenarioB ''batter'' = None" "recipes scenarioB ''batter'' = Some batter"
  "ingredients scenarioB ''cake'' = None" "recipes scenarioB ''cake'' = Some cake"
  by (simp_all add: scenarioB_eq)

lemma cake_items:
  "requiredItems cake =
     [\<lparr>name = ''batter'', quantity = double 3\<rparr>, \<lparr>name = ''egg'', quantity = double 1\<rparr>]"
  by (simp add: cake_def)

lemma batter_items:
  "requiredItems batter =
     [\<lparr>name = ''egg'', quantity = double 2\<rparr>, \<lparr>name = ''flour'', quantity = double 1\<rparr>]"
  by (simp add: batter_def)

theorem additivity_witness:
  "getRecipeIngredients scenarioB cake = Some (Val [(''egg'', double 7), (''flour'', double 3)])
   \<and> map_of [(''egg'', double 7), (''flour'', double 3)] ''egg''
       = Some (double 1 + double 3 * double 2)
   \<and> map_of [(''egg'', double 7), (''flour'', double 3)] ''flour''
       = foldl accumulate None (map (contribution scenarioB ''flour'') (requiredItems cake))
   \<and> getRecipeIngredients custard_cookbook custard
       = Some (Val [(''egg'', double 9007199254740992)])
   \<and> map_of [(''egg'', double 9007199254740992)] ''egg''
       = Some (double 9007199254740992 + double 1 * double 1)"
proof -
  have flour: "contribution scenarioB ''egg'' \<lparr>name = ''flour'', quantity = double 1\<rparr> = None"
    by (simp add: contribution_def scenarioB_store)
  have "map_of [(''egg'', double 7), (''flour'', double 3)] ''flour''
       = foldl accumulate None (map (contribution scenarioB ''flour'') (requiredItems cake))
    \<and> map_of [(''egg'', double 7), (''flour'', double 3)] ''egg''
       = Some (double 1 + double 3 * double 2)"
    using additivity [OF cake_B, where y = "''flour''" and x = "''egg''" and ing = egg
        and s = "''batter''" and sub = batter and a = "double 1" and b = "double 3"
        and c = "double 2" and others = "[]"
        and others' = "[\<lparr>name = ''flour'', quantity = double 1\<rparr>]"]
    by (simp add: scenarioB_store cake_items batter_items flour)
  moreover have "map_of [(''egg'', double 9007199254740992)] ''egg''
       = Some (double 9007199254740992 + double 1 * double 1)"
    using additivity [OF custard_resolved, where x = "''egg''" and ing = egg
        and s = "''yolk''" and sub = yolk and a = "double 9007199254740992" and b = "double 1"
        and c = "double 1" and others = "[]" and others' = "[]"]
    by (simp add: custard_store custard_items yolk_def)
  ultimately show ?thesis by (simp add: cake_B custard_resolved)
qed

section \<open>Scaling by a sub-recipe's quantity\<close>

lemma times_finite:
  assumes "valueOf q = Some u" and "valueOf m = Some v"
  shows "q * m = double (u * v)"
proof -
  from assms(1) obtain a where q: "q = Finite a" and u: "u = Rep_finite64 a"
    by (cases q) simp_all
  from assms(2) obtain b where m: "m = Finite b" and v: "v = Rep_finite64 b"
    by (cases m) simp_all
  show ?thesis by (simp add: q u m v)
qed

lemma silo_cookbook_eq:
  "silo_cookbook =
     \<lparr>recipes = [''sack'' \<mapsto> sack, ''silo'' \<mapsto> silo],
      ingredients = [''grain'' \<mapsto> grain]\<rparr>"
  by (simp add: silo_cookbook_def post_entry_def empty_cookbook_def grain_def sack_def
      silo_def)

lemma silo_store:
  "ingredients silo_cookbook ''grain'' = Some grain"
  "ingredients silo_cookbook ''sack'' = None" "recipes silo_cookbook ''sack'' = Some sack"
  by (simp_all add: silo_cookbook_eq)

lemma sack_resolved:
  "getRecipeIngredients silo_cookbook sack = Some (Val [(''grain'', double 134217729)])"
proof -
  have "requiredItems sack = [\<lparr>name = ''grain'', quantity = double 134217729\<rparr>]"
    by (simp add: sack_def)
  then show ?thesis
    by (simp add: getRecipeIngredients_def resolveItems_ingredient silo_store
        addToMapEntry_def)
qed

lemma silo_resolved:
  "getRecipeIngredients silo_cookbook silo =
     Some (Val [(''grain'', double 18014398777917440)])"
proof -
  have "requiredItems silo = [\<lparr>name = ''sack'', quantity = double 134217729\<rparr>]"
    by (simp add: silo_def)
  then show ?thesis
    by (simp add: getRecipeIngredients_def [of _ silo] resolveItems_recipe silo_store
        sack_resolved addScaled_def addToMapEntry_def double_square)
qed

text \<open>
  C2, as the code has it. Let the recipe \<open>R\<close> resolve to the table \<open>t\<close>, and let a parent
  recipe that resolves successfully have the required item \<open>(n, m)\<close>, where \<open>n\<close> names \<open>R\<close>
  (and no ingredient). Then the loop reaches that item with some table \<open>before\<close>, merges
  \<open>t\<close> into it and goes on with the merged table; the merge gives every name of \<open>t\<close> the
  quantity it had before (0 for a new name) plus its quantity in \<open>t\<close> times \<open>m\<close>, leaves
  every other name as it was, and adds the keys of \<open>t\<close>; merged into an empty table, the
  result is \<open>t\<close> itself with every quantity multiplied by \<open>m\<close>, in the same order. The
  product is that of the numbers: for two finite numbers, the exact product of their
  values rounded to a double. In the store of Scenario B, \<open>GET /summary\<close> for \<open>cake\<close>
  answers egg 7, flour 3 and cook time 41.
\<close>

theorem scaling:
  "(requiredItems p = pre @ \<lparr>name = n, quantity = m\<rparr> # post
      \<and> ingredients cb n = None \<and> recipes cb n = Some R
      \<and> getRecipeIngredients cb R = Some (Val t)
      \<and> getRecipeIngredients cb p = Some (Val tbl) \<longrightarrow>
    (\<exists>before. resolveItems cb pre [] = Some (Val before)
       \<and> resolveItems cb post (addScaled m t before) = Some (Val tbl)
       \<and> (\<forall>x. map_of (addScaled m t before) x =
             (case map_of t x of
                None \<Rightarrow> map_of before x
              | Some q \<Rightarrow> Some (quantityOf before x + q * m)))
       \<and> fst ` set (addScaled m t before) = fst ` set before \<union> fst ` set t)
    \<and> addScaled m t [] = map (\<lambda>(k, q). (k, q * m)) t)
   \<and> (valueOf q' = Some u \<and> valueOf m' = Some v \<longrightarrow> q' * m' = double (u * v))
   \<and> get_summary scenarioB (QueryString ''cake'') =
       Some (Send 200 (Json \<lparr>summary_name = ''cake'', summary_cookTime = double 41,
         summary_ingredients =
           [\<lparr>name = ''egg'', quantity = double 7\<rparr>, \<lparr>name = ''flour'', quantity = double 3\<rparr>]\<rparr>))"
proof (intro conjI impI)
  assume h: "requiredItems p = pre @ \<lparr>name = n, quantity = m\<rparr> # post
      \<and> ingredients cb n = None \<and> recipes cb n = Some R
      \<and> getRecipeIngredients cb R = Some (Val t)
      \<and> getRecipeIngredients cb p = Some (Val tbl)"
  then have distinct: "distinct (map fst t)" using resolved_distinct by blast
  from h have "getRecipeIngredients cb p = Some (Val tbl)" by blast
  then have "resolveItems cb (requiredItems p) [] = Some (Val tbl)"
    unfolding getRecipeIngredients_def .
  with h have "resolveItems cb (pre @ \<lparr>name = n, quantity = m\<rparr> # post) [] = Some (Val tbl)"
    by metis
  then obtain before where before: "resolveItems cb pre [] = Some (Val before)"
    and "resolveItems cb (\<lparr>name = n, quantity = m\<rparr> # post) before = Some (Val tbl)"
    using resolves_append by blast
  with h have "resolveItems cb post (addScaled m t before) = Some (Val tbl)"
    by (simp add: resolveItems_recipe)
  with before map_of_addScaled [OF distinct, of m before]
  show "\<exists>before. resolveItems cb pre [] = Some (Val before)
       \<and> resolveItems cb post (addScaled m t before) = Some (Val tbl)
       \<and> (\<forall>x. map_of (addScaled m t before) x =
             (case map_of t x of
                None \<Rightarrow> map_of before x
              | Some q \<Rightarrow> Some (quantityOf before x + q * m)))
       \<and> fst ` set (addScaled m t before) = fst ` set before \<union> fst ` set t"
    by (auto simp: keys_addScaled)
  from distinct show "addScaled m t [] = map (\<lambda>(k, q). (k, q * m)) t"
    by (rule addScaled_empty)
next
  assume "valueOf q' = Some u \<and> valueOf m' = Some v"
  then show "q' * m' = double (u * v)" by (simp add: times_finite)
next
  show "get_summary scenarioB (QueryString ''cake'') =
       Some (Send 200 (Json \<lparr>summary_name = ''cake'', summary_cookTime = double 41,
         summary_ingredients =
           [\<lparr>name = ''egg'', quantity = double 7\<rparr>, \<lparr>name = ''flour'', quantity = double 3\<rparr>]\<rparr>))"
    by (rule summary_cake_B)
qed

theorem scaling_witness:
  "requiredItems cake =
     [] @ \<lparr>name = ''batter'', quantity = double 3\<rparr> # [\<lparr>name = ''egg'', quantity = double 1\<rparr>]
   \<and> ingredients scenarioB ''batter'' = None \<and> recipes scenarioB ''batter'' = Some batter
   \<and> getRecipeIngredients scenarioB batter = Some (Val [(''egg'', double 2), (''flour'', double 1)])
   \<and> getRecipeIngredients scenarioB cake = Some (Val [(''egg'', double 7), (''flour'', double 3)])
   \<and> addScaled (double 3) [(''egg'', double 2), (''flour'', double 1)] [] =
       [(''egg'', double 2 * double 3), (''flour'', double 1 * double 3)]
   \<and> resolveItems scenarioB [\<lparr>name = ''egg'', quantity = double 1\<rparr>]
       [(''egg'', double 2 * double 3), (''flour'', double 1 * double 3)] =
       Some (Val [(''egg'', double 7), (''flour'', double 3)])
   \<and> valueOf (double 134217729) = Some 134217729
   \<and> double 134217729 * double 134217729 = double (134217729 * 134217729)"
proof -
  have cake: "requiredItems cake =
      [] @ \<lparr>name = ''batter'', quantity = double 3\<rparr> # [\<lparr>name = ''egg'', quantity = double 1\<rparr>]"
    by (simp add: cake_def)
  have store: "ingredients scenarioB ''batter'' = None" "recipes scenarioB ''batter'' = Some batter"
    by (simp_all add: scenarioB_eq)
  have hyp: "requiredItems cake =
        [] @ \<lparr>name = ''batter'', quantity = double 3\<rparr> # [\<lparr>name = ''egg'', quantity = double 1\<rparr>]
      \<and> ingredients scenarioB ''batter'' = None \<and> recipes scenarioB ''batter'' = Some batter
      \<and> getRecipeIngredients scenarioB batter = Some (Val [(''egg'', double 2), (''flour'', double 1)])
      \<and> getRecipeIngredients scenarioB cake = Some (Val [(''egg'', double 7), (''flour'', double 3)])"
    by (intro conjI cake store batter_B cake_B)
  have val: "valueOf (double 134217729) = Some 134217729"
    by (simp add: valueOf_double integer_representable)
  note all = scaling [of cake "[]" "''batter''" "double 3"
      "[\<lparr>name = ''egg'', quantity = double 1\<rparr>]" scenarioB
      batter "[(''egg'', double 2), (''flour'', double 1)]"
      "[(''egg'', double 7), (''flour'', double 3)]"
      "double 134217729" 134217729 "double 134217729" 134217729]
  note step = all [THEN conjunct1, THEN mp, OF hyp]
  from all val have product:
    "double 134217729 * double 134217729 = double (134217729 * 134217729)"
    by blast
  from step have merged: "addScaled (double 3) [(''egg'', double 2), (''flour'', double 1)] [] =
      [(''egg'', double 2 * double 3), (''flour'', double 1 * double 3)]"
    by simp
  from step obtain before where "resolveItems scenarioB [] [] = Some (Val before)"
    and rest: "resolveItems scenarioB [\<lparr>name = ''egg'', quantity = double 1\<rparr>]
            (addScaled (double 3) [(''egg'', double 2), (''flour'', double 1)] before) =
          Some (Val [(''egg'', double 7), (''flour'', double 3)])"
    by blast
  then have "before = []" by simp
  with rest merged
  have "resolveItems scenarioB [\<lparr>name = ''egg'', quantity = double 1\<rparr>]
       [(''egg'', double 2 * double 3), (''flour'', double 1 * double 3)] =
       Some (Val [(''egg'', double 7), (''flour'', double 3)])"
    by simp
  with hyp merged val product show ?thesis by blast
qed

text \<open>
  The product of two quantities is rounded. With grain required 134217729 times by
  \<open>sack\<close> and \<open>sack\<close> required 134217729 times by \<open>silo\<close>, \<open>silo\<close> resolves to the
  quantity 18014398777917440 of grain, which is not 134217729 times 134217729.
\<close>

theorem scaled_quantity_rounded:
  "getRecipeIngredients silo_cookbook sack = Some (Val [(''grain'', double 134217729)])
   \<and> getRecipeIngredients silo_cookbook silo = Some (Val [(''grain'', double 18014398777917440)])
   \<and> requiredItems silo = [\<lparr>name = ''sack'', quantity = double 134217729\<rparr>]
   \<and> valueOf (double 134217729) = Some 134217729
   \<and> valueOf (double 18014398777917440) = Some 18014398777917440
   \<and> (134217729 :: real) * 134217729 \<noteq> 18014398777917440"
proof -
  have "requiredItems silo = [\<lparr>name = ''sack'', quantity = double 134217729\<rparr>]"
    by (simp add: silo_def)
  then show ?thesis
    by (simp add: sack_resolved silo_resolved valueOf_double integer_representable
        square_representable)
qed

section \<open>Facts about the display-name helper\<close>

lemmas parse_eval = parse_handwriting_def parse_handwriting_template_def parse_with_def
  parse_handwriting_spec_def titleCase_def toUpperCase_def toLowerCase_def upperChar_def
  lowerChar_def replaceDashes_def isSpace_def isAlpha_def isLower_def isUpper_def isDigit_def
  isAlnum_def utf16_def

lemma splitWhitespace_nonempty: "splitWhitespace u \<noteq> []"
  by (induction u rule: splitWhitespace.induct) (auto split: list.splits)

lemma scan_skip: "scan sep keep [] (dropWhile sep u) = scan sep keep [] u"
  by (induction u) simp_all

lemma scan_split:
  "scan isSpace keep cur u =
     filter (\<lambda>word. length word > 0)
       (case splitWhitespace u of
          [] \<Rightarrow> []
        | w # ws \<Rightarrow> (rev cur @ filter keep w) # map (filter keep) ws)"
proof (induction u arbitrary: cur rule: splitWhitespace.induct)
  case 1
  show ?case by simp
next
  case (2 c cs)
  show ?case
  proof (cases "isSpace c")
    case True
    obtain w ws where split: "splitWhitespace (dropWhile isSpace cs) = w # ws"
      using splitWhitespace_nonempty by (cases "splitWhitespace (dropWhile isSpace cs)") auto
    have "scan isSpace keep [] cs = scan isSpace keep [] (dropWhile isSpace cs)"
      by (simp add: scan_skip)
    also have "\<dots> = filter (\<lambda>word. length word > 0) (map (filter keep) (w # ws))"
      using "2.IH"(1) [OF True, of "[]"] by (simp add: split)
    finally show ?thesis using True by (simp add: split)
  next
    case False
    obtain w ws where split: "splitWhitespace cs = w # ws"
      using splitWhitespace_nonempty by (cases "splitWhitespace cs") auto
    show ?thesis
    proof (cases "keep c")
      case True
      with False "2.IH"(2) [OF False, of "c # cur"] show ?thesis by (simp add: split)
    next
      case keep: False
      with False "2.IH"(2) [OF False, of cur] show ?thesis by (simp add: split)
    qed
  qed
qed

lemma space_32: "isSpace 32"
  by (simp add: isSpace_def)

lemma scan_replaceDashes:
  "scan isSpace keep cur (replaceDashes u) = scan isSeparator keep cur u"
  by (induction u arbitrary: cur) (simp_all add: replaceDashes_def isSeparator_def space_32)

lemma parse_with_scan:
  "parse_with keep s =
     (case scan isSeparator keep [] s of
        [] \<Rightarrow> Null
      | w # ws \<Rightarrow> Val (join [32] (map titleCase (w # ws))))"
proof -
  obtain w ws where split: "splitWhitespace (replaceDashes s) = w # ws"
    using splitWhitespace_nonempty by (cases "splitWhitespace (replaceDashes s)") auto
  have "scan isSeparator keep [] s =
      filter (\<lambda>word. length word > 0) (map (filter keep) (splitWhitespace (replaceDashes s)))"
    using scan_split [of keep "[]" "replaceDashes s"]
    by (simp add: scan_replaceDashes split)
  then show ?thesis
    by (simp add: parse_with_def Let_def split: list.splits)
qed

lemma scan_words_nonempty: "w \<in> set (scan sep keep cur s) \<Longrightarrow> w \<noteq> []"
  by (induction s arbitrary: cur) (auto split: if_splits)

lemma concat_scan:
  "concat (scan sep keep cur s) = rev cur @ filter (\<lambda>c. \<not> sep c \<and> keep c) s"
  by (induction s arbitrary: cur) simp_all

lemma scan_words_kept:
  assumes "w \<in> set (scan sep keep cur s)" and "c \<in> set w"
  shows "c \<in> set cur \<or> keep c"
proof -
  from assms have "c \<in> set (concat (scan sep keep cur s))" by auto
  then show ?thesis by (auto simp: concat_scan)
qed

lemma scan_empty_iff:
  "scan sep keep [] s = [] \<longleftrightarrow> filter (\<lambda>c. \<not> sep c \<and> keep c) s = []"
proof
  assume "scan sep keep [] s = []"
  then have "concat (scan sep keep [] s) = []" by simp
  then show "filter (\<lambda>c. \<not> sep c \<and> keep c) s = []" by (simp add: concat_scan)
next
  assume "filter (\<lambda>c. \<not> sep c \<and> keep c) s = []"
  then have "concat (scan sep keep [] s) = []" by (simp add: concat_scan)
  then have "\<forall>w \<in> set (scan sep keep [] s). w = []" by simp
  with scan_words_nonempty [of _ sep keep "[]" s] show "scan sep keep [] s = []"
    by (cases "scan sep keep [] s") auto
qed

lemma upperChar_lower: "isLower c \<Longrightarrow> isUpper (upperChar c)"
  unfolding isLower_def isUpper_def upperChar_def by auto

lemma lowerChar_upper: "isUpper c \<Longrightarrow> isLower (lowerChar c)"
  unfolding isLower_def isUpper_def lowerChar_def by auto

lemma lowerChar_upperChar: "lowerChar (upperChar c) = lowerChar c"
  unfolding isLower_def isUpper_def lowerChar_def upperChar_def by auto

lemma lowerChar_idem: "lowerChar (lowerChar c) = lowerChar c"
  unfolding isLower_def isUpper_def lowerChar_def by auto

lemma upperChar_alpha: "isAlpha c \<Longrightarrow> isUpper (upperChar c)"
  unfolding isAlpha_def isLower_def isUpper_def upperChar_def by auto

lemma lowerChar_alpha: "isAlpha c \<Longrightarrow> isLower (lowerChar c)"
  unfolding isAlpha_def isLower_def isUpper_def lowerChar_def by auto

lemma upperChar_digit: "isDigit c \<Longrightarrow> upperChar c = c"
  unfolding isDigit_def isLower_def upperChar_def by auto

lemma lowerChar_digit: "isDigit c \<Longrightarrow> lowerChar c = c"
  unfolding isDigit_def isUpper_def lowerChar_def by auto

lemma upperChar_alnum: "isAlnum c \<Longrightarrow> isUpper (upperChar c) \<or> isDigit (upperChar c)"
  unfolding isAlnum_def using upperChar_alpha upperChar_digit by auto

lemma lowerChar_alnum: "isAlnum c \<Longrightarrow> isLower (lowerChar c) \<or> isDigit (lowerChar c)"
  unfolding isAlnum_def using lowerChar_alpha lowerChar_digit by auto

lemma space_not_alnum: "\<not> isAlnum 32"
  by (simp add: isAlnum_def isAlpha_def isLower_def isUpper_def isDigit_def)

lemma space_not_alpha: "\<not> isAlpha 32"
  by (simp add: isAlpha_def isLower_def isUpper_def)

lemma alnum_not_separator: "isAlnum c \<Longrightarrow> \<not> isSeparator c"
  by (auto simp: isAlnum_def isAlpha_def isLower_def isUpper_def isDigit_def isSeparator_def
      isSpace_def)

lemma alpha_not_separator: "isAlpha c \<Longrightarrow> \<not> isSeparator c"
  using alnum_not_separator by (simp add: isAlnum_def)

lemma titleCase_Cons: "titleCase (c # cs) = upperChar c # map lowerChar cs"
  by (simp add: titleCase_def toUpperCase_def toLowerCase_def)

lemma toLowerCase_titleCase: "toLowerCase (titleCase w) = toLowerCase w"
proof (cases w)
  case Nil
  then show ?thesis by (simp add: titleCase_def toUpperCase_def toLowerCase_def)
next
  case (Cons c cs)
  then show ?thesis
    by (simp add: titleCase_Cons toLowerCase_def lowerChar_upperChar lowerChar_idem)
qed

lemma titleCase_alpha:
  assumes "w \<noteq> []" and "\<forall>c \<in> set w. isAlpha c"
  shows "titleCase w \<noteq> []" and "isUpper (hd (titleCase w))"
    and "\<forall>c \<in> set (tl (titleCase w)). isLower c"
    and "\<forall>c \<in> set (titleCase w). isAlpha c"
proof -
  from assms(1) obtain c cs where w: "w = c # cs" by (cases w) auto
  with assms(2) have c: "isAlpha c" and cs: "\<forall>d \<in> set cs. isAlpha d" by simp_all
  show "titleCase w \<noteq> []" by (simp add: w titleCase_Cons)
  from c show "isUpper (hd (titleCase w))" by (simp add: w titleCase_Cons upperChar_alpha)
  from cs show "\<forall>c \<in> set (tl (titleCase w)). isLower c"
    by (simp add: w titleCase_Cons lowerChar_alpha)
  from c cs show "\<forall>c \<in> set (titleCase w). isAlpha c"
    by (simp add: w titleCase_Cons isAlpha_def upperChar_alpha lowerChar_alpha)
qed

lemma titleCase_alnum:
  assumes "w \<noteq> []" and "\<forall>c \<in> set w. isAlnum c"
  shows "titleCase w \<noteq> []" and "isUpper (hd (titleCase w)) \<or> isDigit (hd (titleCase w))"
    and "\<forall>c \<in> set (tl (titleCase w)). isLower c \<or> isDigit c"
    and "\<forall>c \<in> set (titleCase w). isAlnum c"
proof -
  from assms(1) obtain c cs where w: "w = c # cs" by (cases w) auto
  with assms(2) have c: "isAlnum c" and cs: "\<forall>d \<in> set cs. isAlnum d" by simp_all
  show "titleCase w \<noteq> []" by (simp add: w titleCase_Cons)
  from c show "isUpper (hd (titleCase w)) \<or> isDigit (hd (titleCase w))"
    by (simp add: w titleCase_Cons upperChar_alnum)
  from cs show "\<forall>c \<in> set (tl (titleCase w)). isLower c \<or> isDigit c"
    by (simp add: w titleCase_Cons lowerChar_alnum)
  from upperChar_alnum [OF c] have "isAlnum (upperChar c)"
    by (auto simp: isAlnum_def isAlpha_def)
  moreover from cs lowerChar_alnum have "\<forall>d \<in> set cs. isAlnum (lowerChar d)"
    by (auto simp: isAlnum_def isAlpha_def)
  ultimately show "\<forall>c \<in> set (titleCase w). isAlnum c"
    by (simp add: w titleCase_Cons)
qed

lemma filter_join:
  "\<not> keep 32 \<Longrightarrow> \<forall>w \<in> set ws. \<forall>c \<in> set w. keep c \<Longrightarrow> filter keep (join [32] ws) = concat ws"
proof (induction ws)
  case Nil
  show ?case by simp
next
  case (Cons w ws)
  then have w: "filter keep w = w" by (simp add: filter_id_conv)
  show ?case
  proof (cases ws)
    case Nil
    with w show ?thesis by simp
  next
    case (Cons v vs)
    with Cons.IH Cons.prems w show ?thesis by simp
  qed
qed

lemma filter_alpha_not_separator:
  "filter (\<lambda>c. \<not> isSeparator c \<and> isAlpha c) s = filter isAlpha s"
  by (rule filter_cong) (auto simp: alpha_not_separator)

lemma filter_alnum_not_separator:
  "filter (\<lambda>c. \<not> isSeparator c \<and> isAlnum c) s = filter isAlnum s"
  by (rule filter_cong) (auto simp: alnum_not_separator)

lemma scanned_words:
  assumes "w \<in> set (scan sep keep [] s)"
  shows "w \<noteq> []" and "\<forall>c \<in> set w. keep c"
proof -
  from assms show "w \<noteq> []" by (rule scan_words_nonempty)
  from assms show "\<forall>c \<in> set w. keep c"
    using scan_words_kept [of w sep keep "[]" s] by auto
qed

lemma toLowerCase_concat_titleCase:
  "toLowerCase (concat (map titleCase ws)) = toLowerCase (concat ws)"
proof (induction ws)
  case Nil
  show ?case by simp
next
  case (Cons w ws)
  have "toLowerCase (u @ v) = toLowerCase u @ toLowerCase v" for u v
    by (simp add: toLowerCase_def)
  with Cons show ?case by (simp add: toLowerCase_titleCase)
qed

lemma lower_letters_titleCase:
  assumes "\<forall>w \<in> set ws. w \<noteq> [] \<and> (\<forall>c \<in> set w. isAlpha c)"
  shows "toLowerCase (filter isAlpha (join [32] (map titleCase ws))) = toLowerCase (concat ws)"
proof -
  from assms have "\<forall>w \<in> set (map titleCase ws). \<forall>c \<in> set w. isAlpha c"
    using titleCase_alpha(4) by auto
  with space_not_alpha
  have "filter isAlpha (join [32] (map titleCase ws)) = concat (map titleCase ws)"
    by (rule filter_join)
  then show ?thesis by (simp add: toLowerCase_concat_titleCase)
qed

lemma lower_alnums_titleCase:
  assumes "\<forall>w \<in> set ws. w \<noteq> [] \<and> (\<forall>c \<in> set w. isAlnum c)"
  shows "toLowerCase (filter isAlnum (join [32] (map titleCase ws))) = toLowerCase (concat ws)"
proof -
  from assms have "\<forall>w \<in> set (map titleCase ws). \<forall>c \<in> set w. isAlnum c"
    using titleCase_alnum(4) by auto
  with space_not_alnum
  have "filter isAlnum (join [32] (map titleCase ws)) = concat (map titleCase ws)"
    by (rule filter_join)
  then show ?thesis by (simp add: toLowerCase_concat_titleCase)
qed

text \<open>
  C9, as the code has it. \<open>parse_handwriting\<close> reads the input word by word: hyphens,
  underscores and white space separate words; every other code unit that is no ASCII
  letter (a digit too) is deleted without separating anything; the words that are left
  non-empty are put in title case and joined with single spaces. The result is \<open>null\<close>
  exactly when the input has no ASCII letter. Otherwise it is a non-empty list of words
  joined by single spaces, each word an upper-case letter followed by lower-case letters,
  and its letters are the letters of the input, in order, up to case. The template's
  variant does the same and keeps ASCII digits as well: its result is \<open>null\<close> exactly when
  the input has no ASCII letter or digit; otherwise each word starts with an upper-case
  letter or a digit and goes on with lower-case letters and digits, and its letters and
  digits are those of the input, in order, up to case.
\<close>

theorem parse_handwriting_normalizes:
  "parse_handwriting s =
     (case scan isSeparator isAlpha [] s of
        [] \<Rightarrow> Null
      | w # ws \<Rightarrow> Val (join [32] (map titleCase (w # ws))))
   \<and> parse_handwriting_template s =
     (case scan isSeparator isAlnum [] s of
        [] \<Rightarrow> Null
      | w # ws \<Rightarrow> Val (join [32] (map titleCase (w # ws))))
   \<and> (parse_handwriting s = Null \<longleftrightarrow> filter isAlpha s = [])
   \<and> (parse_handwriting_template s = Null \<longleftrightarrow> filter isAlnum s = [])
   \<and> (\<forall>t. parse_handwriting s = Val t \<longrightarrow>
        (\<exists>ws. t = join [32] ws \<and> ws \<noteq> []
           \<and> (\<forall>w \<in> set ws. w \<noteq> [] \<and> isUpper (hd w) \<and> (\<forall>c \<in> set (tl w). isLower c)))
        \<and> toLowerCase (filter isAlpha t) = toLowerCase (filter isAlpha s))
   \<and> (\<forall>t. parse_handwriting_template s = Val t \<longrightarrow>
        (\<exists>ws. t = join [32] ws \<and> ws \<noteq> []
           \<and> (\<forall>w \<in> set ws. w \<noteq> [] \<and> (isUpper (hd w) \<or> isDigit (hd w))
                \<and> (\<forall>c \<in> set (tl w). isLower c \<or> isDigit c)))
        \<and> toLowerCase (filter isAlnum t) = toLowerCase (filter isAlnum s))"
proof (intro conjI allI impI)
  show code: "parse_handwriting s =
     (case scan isSeparator isAlpha [] s of
        [] \<Rightarrow> Null
      | w # ws \<Rightarrow> Val (join [32] (map titleCase (w # ws))))"
    by (simp add: parse_handwriting_def parse_with_scan)
  show template: "parse_handwriting_template s =
     (case scan isSeparator isAlnum [] s of
        [] \<Rightarrow> Null
      | w # ws \<Rightarrow> Val (join [32] (map titleCase (w # ws))))"
    by (simp add: parse_handwriting_template_def parse_with_scan)
  have "parse_handwriting s = Null \<longleftrightarrow> scan isSeparator isAlpha [] s = []"
    by (simp add: code split: list.splits)
  then show "parse_handwriting s = Null \<longleftrightarrow> filter isAlpha s = []"
    by (simp add: scan_empty_iff filter_alpha_not_separator)
  have "parse_handwriting_template s = Null \<longleftrightarrow> scan isSeparator isAlnum [] s = []"
    by (simp add: template split: list.splits)
  then show "parse_handwriting_template s = Null \<longleftrightarrow> filter isAlnum s = []"
    by (simp add: scan_empty_iff filter_alnum_not_separator)
  {
    fix t assume "parse_handwriting s = Val t"
    then obtain words where words: "scan isSeparator isAlpha [] s = words" "words \<noteq> []"
      and t: "t = join [32] (map titleCase words)"
      by (auto simp: code split: list.splits)
    have alpha: "\<forall>w \<in> set words. w \<noteq> [] \<and> (\<forall>c \<in> set w. isAlpha c)"
      using scanned_words [of _ isSeparator isAlpha s] words(1) by blast
    have "\<forall>w \<in> set (map titleCase words).
        w \<noteq> [] \<and> isUpper (hd w) \<and> (\<forall>c \<in> set (tl w). isLower c)"
      using alpha titleCase_alpha(1,2,3) by auto
    with t words(2)
    show "\<exists>ws. t = join [32] ws \<and> ws \<noteq> []
             \<and> (\<forall>w \<in> set ws. w \<noteq> [] \<and> isUpper (hd w) \<and> (\<forall>c \<in> set (tl w). isLower c))"
      by (intro exI [of _ "map titleCase words"]) simp
    have "toLowerCase (filter isAlpha t) = toLowerCase (concat words)"
      unfolding t using alpha by (rule lower_letters_titleCase)
    also have "concat words = filter isAlpha s"
      using concat_scan [of isSeparator isAlpha "[]" s]
      by (simp add: words(1) filter_alpha_not_separator)
    finally show "toLowerCase (filter isAlpha t) = toLowerCase (filter isAlpha s)" .
  }
  {
    fix t assume "parse_handwriting_template s = Val t"
    then obtain words where words: "scan isSeparator isAlnum [] s = words" "words \<noteq> []"
      and t: "t = join [32] (map titleCase words)"
      by (auto simp: template split: list.splits)
    have alnum: "\<forall>w \<in> set words. w \<noteq> [] \<and> (\<forall>c \<in> set w. isAlnum c)"
      using scanned_words [of _ isSeparator isAlnum s] words(1) by blast
    have "\<forall>w \<in> set (map titleCase words).
        w \<noteq> [] \<and> (isUpper (hd w) \<or> isDigit (hd w)) \<and> (\<forall>c \<in> set (tl w). isLower c \<or> isDigit c)"
    proof
      fix v assume "v \<in> set (map titleCase words)"
      then obtain w where w: "w \<in> set words" and v: "v = titleCase w" by auto
      with alnum have "w \<noteq> []" and "\<forall>c \<in> set w. isAlnum c" by simp_all
      from titleCase_alnum(1) [OF this] titleCase_alnum(2) [OF this] titleCase_alnum(3) [OF this]
      show "v \<noteq> [] \<and> (isUpper (hd v) \<or> isDigit (hd v)) \<and> (\<forall>c \<in> set (tl v). isLower c \<or> isDigit c)"
        unfolding v by (intro conjI)
    qed
    with t words(2)
    show "\<exists>ws. t = join [32] ws \<and> ws \<noteq> []
             \<and> (\<forall>w \<in> set ws. w \<noteq> [] \<and> (isUpper (hd w) \<or> isDigit (hd w))
                  \<and> (\<forall>c \<in> set (tl w). isLower c \<or> isDigit c))"
      by (intro exI [of _ "map titleCase words"]) simp
    have "toLowerCase (filter isAlnum t) = toLowerCase (concat words)"
      unfolding t using alnum by (rule lower_alnums_titleCase)
    also have "concat words = filter isAlnum s"
      using concat_scan [of isSeparator isAlnum "[]" s]
      by (simp add: words(1) filter_alnum_not_separator)
    finally show "toLowerCase (filter isAlnum t) = toLowerCase (filter isAlnum s)" .
  }
qed

theorem parse_handwriting_normalizes_witness:
  "parse_handwriting (utf16 ''Riz@z RISO00tto!'') = Val (utf16 ''Rizz Risotto'')
   \<and> toLowerCase (filter isAlpha (utf16 ''Rizz Risotto''))
       = toLowerCase (filter isAlpha (utf16 ''Riz@z RISO00tto!''))
   \<and> parse_handwriting_template (utf16 ''Riz@z RISO00tto!'') = Val (utf16 ''Rizz Riso00tto'')
   \<and> toLowerCase (filter isAlnum (utf16 ''Rizz Riso00tto''))
       = toLowerCase (filter isAlnum (utf16 ''Riz@z RISO00tto!''))
   \<and> filter isAlpha (utf16 ''-- 00 __'') = []
   \<and> parse_handwriting (utf16 ''-- 00 __'') = Null
   \<and> filter isAlnum (utf16 ''-- @ __'') = []
   \<and> parse_handwriting_template (utf16 ''-- @ __'') = Null"
proof -
  have val: "parse_handwriting (utf16 ''Riz@z RISO00tto!'') = Val (utf16 ''Rizz Risotto'')"
    by (simp add: parse_eval)
  have val': "parse_handwriting_template (utf16 ''Riz@z RISO00tto!'')
      = Val (utf16 ''Rizz Riso00tto'')"
    by (simp add: parse_eval)
  have none: "filter isAlpha (utf16 ''-- 00 __'') = []"
    by (simp add: utf16_def isAlpha_def isLower_def isUpper_def)
  have none': "filter isAlnum (utf16 ''-- @ __'') = []"
    by (simp add: utf16_def isAlnum_def isDigit_def isAlpha_def isLower_def isUpper_def)
  from parse_handwriting_normalizes [of "utf16 ''Riz@z RISO00tto!''"] val
  have "toLowerCase (filter isAlpha (utf16 ''Rizz Risotto''))
       = toLowerCase (filter isAlpha (utf16 ''Riz@z RISO00tto!''))"
    by blast
  moreover from parse_handwriting_normalizes [of "utf16 ''Riz@z RISO00tto!''"] val'
  have "toLowerCase (filter isAlnum (utf16 ''Rizz Riso00tto''))
       = toLowerCase (filter isAlnum (utf16 ''Riz@z RISO00tto!''))"
    by blast
  moreover from parse_handwriting_normalizes [of "utf16 ''-- 00 __''"] none
  have "parse_handwriting (utf16 ''-- 00 __'') = Null" by blast
  moreover from parse_handwriting_normalizes [of "utf16 ''-- @ __''"] none'
  have "parse_handwriting_template (utf16 ''-- @ __'') = Null" by blast
  ultimately show ?thesis using val val' none none' by simp
qed

text \<open>
  Symbols and digits are deleted, not turned into spaces, and the two variants differ on
  digits: on \<open>Riz@z RISO00tto!\<close> the code answers \<open>Rizz Risotto\<close> and the template
  \<open>Rizz Riso00tto\<close>, where collapsing every character that is no letter or digit into a
  space gives \<open>Riz Z Riso00tto\<close>; on \<open>-- 00 __\<close> the code answers \<open>null\<close> and the template
  \<open>00\<close>. A code unit above 255 is handled like any other: U+3000 and U+2028 separate
  words, the Cyrillic letter U+0430 is deleted.
\<close>

theorem parse_handwriting_deletes_symbols_and_digits:
  "parse_handwriting (utf16 ''Riz@z RISO00tto!'') = Val (utf16 ''Rizz Risotto'')
   \<and> parse_handwriting_template (utf16 ''Riz@z RISO00tto!'') = Val (utf16 ''Rizz Riso00tto'')
   \<and> parse_handwriting_spec (utf16 ''Riz@z RISO00tto!'') = Val (utf16 ''Riz Z Riso00tto'')
   \<and> parse_handwriting (utf16 ''-- 00 __'') = Null
   \<and> parse_handwriting_template (utf16 ''-- 00 __'') = Val (utf16 ''00'')
   \<and> parse_handwriting_spec (utf16 ''-- 00 __'') = Val (utf16 ''00'')
   \<and> parse_handwriting (utf16 ''ab'' @ [12288, 1072, 8232] @ utf16 ''cD'') = Val (utf16 ''Ab Cd'')"
  by (simp add: parse_eval)

end
